theory Spec2Isabelle
  imports Complex_Main
begin

section \<open>Data model\<close>

text \<open>
  The pipeline works on pandas DataFrames. A Python string is a sequence of Unicode code
  points; a code point is a natural number here, and \<open>ascii\<close> reads an ASCII literal.
  Floating-point numbers are idealised as real numbers (no rounding, no infinities); the
  only special float value that is modelled is the missing marker \<open>NaN\<close>.
\<close>

type_synonym codepoint = nat
type_synonym pystr = "codepoint list"

definition ascii :: "string \<Rightarrow> pystr" where
  "ascii s = map of_char s"

text \<open>
  A cell holds what pandas stores in a column: \<open>None\<close> (object columns only), the float
  \<open>NaN\<close>, a number, a string or a boolean. \<open>None\<close> and \<open>NaN\<close> are both missing for
  \<open>isnull\<close>/\<open>notna\<close>, but \<open>str\<close> tells them apart.
\<close>

datatype cell = PyNone | NaN | Num real | Str pystr | PyBool bool

datatype dtype = Numeric | Object | Boolean

record column =
  col_name :: string
  col_dtype :: dtype
  col_cells :: "cell list"

text \<open>
  A DataFrame is its row index (only the number of rows matters here) and its columns in
  order. Column names are taken to be unique, as the loaders of this repository produce them.
\<close>

record dataframe =
  nrows :: nat
  columns :: "column list"

datatype error = IndexError | KeyError | TypeError | ValueError

definition isnull :: "cell \<Rightarrow> bool" where
  "isnull c = (c = PyNone \<or> c = NaN)"

definition notna :: "cell \<Rightarrow> bool" where
  "notna c = (\<not> isnull c)"

definition is_str :: "cell \<Rightarrow> bool" where
  "is_str c = (case c of Str _ \<Rightarrow> True | _ \<Rightarrow> False)"

definition column_names :: "dataframe \<Rightarrow> string list" where
  "column_names df = map col_name (columns df)"

definition has_column :: "dataframe \<Rightarrow> string \<Rightarrow> bool" where
  "has_column df n = (n \<in> set (column_names df))"

definition get_column :: "dataframe \<Rightarrow> string \<Rightarrow> column option" where
  "get_column df n = find (\<lambda>c. col_name c = n) (columns df)"

text \<open>The cell of row \<open>i\<close> in the column named \<open>n\<close>, for reading a frame in the theorems.\<close>

definition cell_at :: "dataframe \<Rightarrow> string \<Rightarrow> nat \<Rightarrow> cell" where
  "cell_at d n i = (case get_column d n of None \<Rightarrow> PyNone | Some c \<Rightarrow> col_cells c ! i)"

text \<open>\<open>df.empty\<close>: some axis has length zero.\<close>

definition df_empty :: "dataframe \<Rightarrow> bool" where
  "df_empty df = (nrows df = 0 \<or> columns df = [])"

text \<open>Every column has one cell per row, and a numeric column holds numbers and \<open>NaN\<close> only.\<close>

definition numeric_cell :: "cell \<Rightarrow> bool" where
  "numeric_cell c = (case c of Num _ \<Rightarrow> True | NaN \<Rightarrow> True | _ \<Rightarrow> False)"

definition wf_column :: "nat \<Rightarrow> column \<Rightarrow> bool" where
  "wf_column n c =
     (length (col_cells c) = n \<and>
      (col_dtype c = Numeric \<longrightarrow> list_all numeric_cell (col_cells c)))"

definition wf_df :: "dataframe \<Rightarrow> bool" where
  "wf_df df = (list_all (wf_column (nrows df)) (columns df) \<and> distinct (column_names df))"

section \<open>Python strings\<close>

text \<open>
  What the Python runtime supplies from outside the repository is a parameter of the model:
  the Unicode tables for the code points beyond ASCII (which of them are whitespace, which
  are alphanumeric, and their compatibility decomposition) and the text \<open>str\<close> gives for a
  float. On ASCII the definitions below fix the behaviour themselves.
\<close>

record pyenv =
  uni_space :: "codepoint \<Rightarrow> bool"
  uni_alnum :: "codepoint \<Rightarrow> bool"
  uni_decomp :: "codepoint \<Rightarrow> codepoint list"
  num_str :: "real \<Rightarrow> pystr"

text \<open>
  \<open>str.isspace\<close>, which is also the regular expression class \<open>\s\<close> on a \<open>str\<close> pattern:
  on ASCII the characters 9 to 13, 28 to 31 and the space.
\<close>

definition isspace :: "pyenv \<Rightarrow> codepoint \<Rightarrow> bool" where
  "isspace E c =
     (if c < 128 then (9 \<le> c \<and> c \<le> 13) \<or> (28 \<le> c \<and> c \<le> 32) else uni_space E c)"

definition isalnum :: "pyenv \<Rightarrow> codepoint \<Rightarrow> bool" where
  "isalnum E c =
     (if c < 128 then (48 \<le> c \<and> c \<le> 57) \<or> (65 \<le> c \<and> c \<le> 90) \<or> (97 \<le> c \<and> c \<le> 122)
      else uni_alnum E c)"

text \<open>The regular expression class \<open>\w\<close>: alphanumeric characters and the underscore.\<close>

definition re_word :: "pyenv \<Rightarrow> codepoint \<Rightarrow> bool" where
  "re_word E c = (isalnum E c \<or> c = 95)"

text \<open>\<open>str.strip()\<close> removes leading and trailing whitespace.\<close>

definition lstrip :: "pyenv \<Rightarrow> pystr \<Rightarrow> pystr" where
  "lstrip E s = dropWhile (isspace E) s"

definition rstrip :: "pyenv \<Rightarrow> pystr \<Rightarrow> pystr" where
  "rstrip E s = rev (dropWhile (isspace E) (rev s))"

definition strip :: "pyenv \<Rightarrow> pystr \<Rightarrow> pystr" where
  "strip E s = rstrip E (lstrip E s)"

text \<open>
  \<open>re.sub(r'\s+', ' ', s)\<close>: scanning from the left, each maximal run of whitespace is
  replaced by one space.
\<close>

function sub_whitespace_runs :: "pyenv \<Rightarrow> pystr \<Rightarrow> pystr" where
  "sub_whitespace_runs E [] = []"
| "sub_whitespace_runs E (c # cs) =
     (if isspace E c then 32 # sub_whitespace_runs E (dropWhile (isspace E) cs)
      else c # sub_whitespace_runs E cs)"
  by pat_completeness auto
termination
  by (relation "measure (\<lambda>(E, s). length s)")
     (auto simp: length_dropWhile_le less_Suc_eq_le)

text \<open>
  \<open>re.sub(r'[^\w\s,.-]', '', s)\<close>: every character outside the class is deleted; the class
  keeps word characters, whitespace, comma (44), period (46) and hyphen (45).
\<close>

definition address_char :: "pyenv \<Rightarrow> codepoint \<Rightarrow> bool" where
  "address_char E c = (re_word E c \<or> isspace E c \<or> c = 44 \<or> c = 46 \<or> c = 45)"

definition sub_special_chars :: "pyenv \<Rightarrow> pystr \<Rightarrow> pystr" where
  "sub_special_chars E s = filter (address_char E) s"

text \<open>
  \<open>unicodedata.normalize('NFKD', s)\<close> followed by \<open>encode('ascii', errors='ignore')\<close> and
  \<open>decode('ascii')\<close>. An ASCII character is its own decomposition. The canonical
  reordering that NFKD also performs moves combining marks only, none of which is ASCII,
  so it cannot be seen once the non-ASCII characters are dropped.
\<close>

definition nfkd :: "pyenv \<Rightarrow> pystr \<Rightarrow> pystr" where
  "nfkd E s = concat (map (\<lambda>c. if c < 128 then [c] else uni_decomp E c) s)"

definition encode_ascii_ignore :: "pystr \<Rightarrow> pystr" where
  "encode_ascii_ignore s = filter (\<lambda>c. c < 128) s"

text \<open>\<open>str.lower()\<close>, as it acts on the ASCII strings that reach it.\<close>

definition lower_char :: "codepoint \<Rightarrow> codepoint" where
  "lower_char c = (if 65 \<le> c \<and> c \<le> 90 then c + 32 else c)"

definition lower :: "pystr \<Rightarrow> pystr" where
  "lower s = map lower_char s"

text \<open>\<open>str.split(',')\<close>: the pieces between the separators, empty pieces included.\<close>

fun split :: "codepoint \<Rightarrow> pystr \<Rightarrow> pystr list" where
  "split sep [] = [[]]"
| "split sep (c # cs) =
     (if c = sep then [] # split sep cs
      else (case split sep cs of p # ps \<Rightarrow> (c # p) # ps | [] \<Rightarrow> [[c]]))"

text \<open>
  \<open>Series.astype(str)\<close> applies \<open>str\<close> to every cell, missing ones included: \<open>None\<close> becomes
  the text None, \<open>NaN\<close> the text nan.
\<close>

definition astype_str :: "pyenv \<Rightarrow> cell \<Rightarrow> pystr" where
  "astype_str E c =
     (case c of
        Str s \<Rightarrow> s
      | PyNone \<Rightarrow> ascii ''None''
      | NaN \<Rightarrow> ascii ''nan''
      | Num r \<Rightarrow> num_str E r
      | PyBool b \<Rightarrow> (if b then ascii ''True'' else ascii ''False''))"

section \<open>DataFrame operations\<close>

text \<open>\<open>df[col] = series\<close> replaces the column of that name where it stands, or appends it.\<close>

definition set_column :: "dataframe \<Rightarrow> string \<Rightarrow> dtype \<Rightarrow> cell list \<Rightarrow> dataframe" where
  "set_column d n t cs =
     (if has_column d n
      then d\<lparr>columns := map (\<lambda>c. if col_name c = n then c\<lparr>col_dtype := t, col_cells := cs\<rparr> else c)
                             (columns d)\<rparr>
      else d\<lparr>columns := columns d @ [\<lparr>col_name = n, col_dtype = t, col_cells = cs\<rparr>]\<rparr>)"

text \<open>\<open>df.select_dtypes(include=...).columns\<close>.\<close>

definition select_dtypes :: "dataframe \<Rightarrow> dtype \<Rightarrow> string list" where
  "select_dtypes d t = map col_name (filter (\<lambda>c. col_dtype c = t) (columns d))"

text \<open>\<open>df[mask]\<close> keeps the rows where the boolean mask is true, in every column alike.\<close>

definition select_cells :: "bool list \<Rightarrow> 'a list \<Rightarrow> 'a list" where
  "select_cells keep cs = map snd (filter fst (zip keep cs))"

definition select_rows :: "bool list \<Rightarrow> dataframe \<Rightarrow> dataframe" where
  "select_rows keep d =
     \<lparr>nrows = length (filter id keep),
      columns = map (\<lambda>c. c\<lparr>col_cells := select_cells keep (col_cells c)\<rparr>) (columns d)\<rparr>"

text \<open>The rows of a frame restricted to some of its columns.\<close>

definition row_keys :: "nat \<Rightarrow> column list \<Rightarrow> cell list list" where
  "row_keys n kcs = map (\<lambda>i. map (\<lambda>c. col_cells c ! i) kcs) [0..<n]"

text \<open>
  \<open>duplicated(keep='first')\<close>: a row is marked when its key has been seen in an earlier row.
  Keys are compared cell by cell, a missing marker being equal to itself.
\<close>

fun duplicated_from :: "'a list \<Rightarrow> 'a list \<Rightarrow> bool list" where
  "duplicated_from seen [] = []"
| "duplicated_from seen (k # ks) = (k \<in> set seen) # duplicated_from (k # seen) ks"

text \<open>
  \<open>DataFrame.duplicated(subset=keys)\<close>: an empty frame has no mask; a key that is not a
  column raises \<open>KeyError\<close>; the key of a row is read off the key columns in the order of
  the frame. An empty list of keys is taken to raise; the callers in this repository never
  pass one, and no theorem below depends on it.
\<close>

definition duplicated :: "dataframe \<Rightarrow> string list \<Rightarrow> error + bool list" where
  "duplicated d keys =
     (if df_empty d then Inr []
      else if \<not> set keys \<subseteq> set (column_names d) then Inl KeyError
      else if keys = [] then Inl ValueError
      else Inr (duplicated_from []
                  (row_keys (nrows d) (filter (\<lambda>c. col_name c \<in> set keys) (columns d)))))"

definition drop_duplicates :: "dataframe \<Rightarrow> string list \<Rightarrow> error + dataframe" where
  "drop_duplicates d keys =
     (if df_empty d then Inr d
      else case duplicated d keys of
             Inl e \<Rightarrow> Inl e
           | Inr m \<Rightarrow> Inr (select_rows (map Not m) d))"

subsection \<open>Column statistics\<close>

text \<open>
  The pandas reductions skip missing cells. Each returns a float, which is \<open>NaN\<close> when the
  statistic is undefined: no value present, or fewer than two for the sample deviation.
\<close>

definition present_values :: "cell list \<Rightarrow> real list" where
  "present_values cs = concat (map (\<lambda>c. case c of Num r \<Rightarrow> [r] | _ \<Rightarrow> []) cs)"

definition series_mean :: "cell list \<Rightarrow> cell" where
  "series_mean cs =
     (let vs = present_values cs
      in if vs = [] then NaN else Num (sum_list vs / real (length vs)))"

definition series_median :: "cell list \<Rightarrow> cell" where
  "series_median cs =
     (let vs = sort (present_values cs); n = length vs
      in if n = 0 then NaN
         else if odd n then Num (vs ! (n div 2))
         else Num ((vs ! (n div 2 - 1) + vs ! (n div 2)) / 2))"

text \<open>\<open>Series.quantile(q)\<close> with the default linear interpolation, for \<open>0 \<le> q \<le> 1\<close>.\<close>

definition quantile :: "real \<Rightarrow> cell list \<Rightarrow> cell" where
  "quantile q cs =
     (let vs = sort (present_values cs); n = length vs
      in if n = 0 then NaN
         else let pos = real (n - 1) * q;
                  lo = nat \<lfloor>pos\<rfloor>;
                  hi = min (lo + 1) (n - 1);
                  frac = pos - real lo
              in Num (vs ! lo + (vs ! hi - vs ! lo) * frac))"

text \<open>\<open>Series.std()\<close>: the sample standard deviation (divisor \<open>n - 1\<close>).\<close>

definition series_std :: "cell list \<Rightarrow> cell" where
  "series_std cs =
     (let vs = present_values cs; n = length vs
      in if n < 2 then NaN
         else let m = sum_list vs / real n
              in Num (sqrt (sum_list (map (\<lambda>v. (v - m)\<^sup>2) vs) / real (n - 1))))"

definition fillna :: "cell \<Rightarrow> cell list \<Rightarrow> cell list" where
  "fillna v cs = map (\<lambda>c. if isnull c then v else c) cs"

definition null_count :: "cell list \<Rightarrow> nat" where
  "null_count cs = length (filter isnull cs)"

definition notna_count :: "cell list \<Rightarrow> nat" where
  "notna_count cs = length (filter notna cs)"

subsection \<open>The rows of a frame\<close>


definition kept_indices :: "bool list \<Rightarrow> nat list" where
  "kept_indices keep = filter (\<lambda>i. keep ! i) [0..<length keep]"

section \<open>Transformer\<close>

text \<open>
  \<open>DataTransformer\<close> (transformer.py) holds a frame and the list of transformations applied.
  A log line is an f-string in the source; here it is a constructor carrying the values the
  f-string formats.
\<close>

datatype log_entry =
    Doublons_supprimes nat
  | Nulls_numeric string nat cell
  | Nulls_text string nat pystr
  | Normalisation_texte nat
  | Adresses_nettoyees int int
  | Outliers_filtres string nat
  | Ajout string
  | Custom string

record transformer =
  self_df :: dataframe
  transformations_applied :: "log_entry list"

text \<open>
  The constructor copies the frame and \<open>get_result\<close> returns a copy. In this section frames
  are values, so a copy is the frame itself; who shares what is the subject of the section
  on object identity.
\<close>

definition DataTransformer :: "dataframe \<Rightarrow> transformer" where
  "DataTransformer d = \<lparr>self_df = d, transformations_applied = []\<rparr>"

definition get_result :: "transformer \<Rightarrow> dataframe" where
  "get_result T = self_df T"

definition log_append :: "log_entry \<Rightarrow> transformer \<Rightarrow> transformer" where
  "log_append e T = T\<lparr>transformations_applied := transformations_applied T @ [e]\<rparr>"

subsection \<open>remove_duplicates\<close>

text \<open>\<open>['code'] if 'code' in self.df.columns else [self.df.columns[0]]\<close>.\<close>

definition dedup_default_subset :: "dataframe \<Rightarrow> error + string list" where
  "dedup_default_subset d =
     (if has_column d ''code'' then Inr [''code'']
      else case columns d of [] \<Rightarrow> Inl IndexError | c # _ \<Rightarrow> Inr [col_name c])"

definition remove_duplicates :: "string list option \<Rightarrow> transformer \<Rightarrow> error + transformer" where
  "remove_duplicates keys T =
     (let initial = nrows (self_df T)
      in case (case keys of None \<Rightarrow> dedup_default_subset (self_df T) | Some s \<Rightarrow> Inr s) of
           Inl e \<Rightarrow> Inl e
         | Inr s \<Rightarrow>
             (case drop_duplicates (self_df T) s of
                Inl e \<Rightarrow> Inl e
              | Inr d' \<Rightarrow>
                  (let removed = initial - nrows d'; T' = T\<lparr>self_df := d'\<rparr>
                   in Inr (if removed > 0 then log_append (Doublons_supprimes removed) T'
                           else T'))))"

subsection \<open>handle_missing_values\<close>

text \<open>
  The fill value of a numeric column; \<open>None\<close> for a strategy other than the three named ones.
  The argument \<open>categorical_strategy\<close> of the source is never read.
\<close>

definition numeric_fill_value :: "string \<Rightarrow> cell list \<Rightarrow> cell option" where
  "numeric_fill_value numeric_strategy cs =
     (if numeric_strategy = ''median'' then Some (series_median cs)
      else if numeric_strategy = ''mean'' then Some (series_mean cs)
      else if numeric_strategy = ''zero'' then Some (Num 0)
      else None)"

text \<open>
  The body of each loop. The column names iterated over are read off the frame itself, so
  the lookup of a name always finds its column.
\<close>

definition impute_numeric_column :: "string \<Rightarrow> string \<Rightarrow> transformer \<Rightarrow> transformer" where
  "impute_numeric_column numeric_strategy col T =
     (case get_column (self_df T) col of
        None \<Rightarrow> T
      | Some c \<Rightarrow>
          (let n = null_count (col_cells c)
           in if n > 0
              then (case numeric_fill_value numeric_strategy (col_cells c) of
                      None \<Rightarrow> T
                    | Some v \<Rightarrow>
                        log_append (Nulls_numeric col n v)
                          (T\<lparr>self_df := set_column (self_df T) col (col_dtype c)
                                          (fillna v (col_cells c))\<rparr>))
              else T))"

definition impute_text_column :: "pystr \<Rightarrow> string \<Rightarrow> transformer \<Rightarrow> transformer" where
  "impute_text_column text_strategy col T =
     (case get_column (self_df T) col of
        None \<Rightarrow> T
      | Some c \<Rightarrow>
          (let n = null_count (col_cells c)
           in if n > 0
              then log_append (Nulls_text col n text_strategy)
                     (T\<lparr>self_df := set_column (self_df T) col (col_dtype c)
                                     (fillna (Str text_strategy) (col_cells c))\<rparr>)
              else T))"

definition handle_missing_values :: "string \<Rightarrow> pystr \<Rightarrow> transformer \<Rightarrow> transformer" where
  "handle_missing_values numeric_strategy text_strategy T =
     (let T1 = fold (impute_numeric_column numeric_strategy) (select_dtypes (self_df T) Numeric) T
      in fold (impute_text_column text_strategy) (select_dtypes (self_df T1) Object) T1)"

subsection \<open>normalize_text_columns\<close>

definition normalize_text :: "pyenv \<Rightarrow> cell \<Rightarrow> cell" where
  "normalize_text E c = Str (lower (encode_ascii_ignore (nfkd E (strip E (astype_str E c)))))"

definition normalize_column :: "pyenv \<Rightarrow> string \<Rightarrow> transformer \<Rightarrow> transformer" where
  "normalize_column E col T =
     (case get_column (self_df T) col of
        None \<Rightarrow> T
      | Some c \<Rightarrow>
          T\<lparr>self_df := set_column (self_df T) col Object (map (normalize_text E) (col_cells c))\<rparr>)"

definition normalize_text_columns :: "pyenv \<Rightarrow> string list option \<Rightarrow> transformer \<Rightarrow> transformer" where
  "normalize_text_columns E cols T =
     (let names = (case cols of None \<Rightarrow> select_dtypes (self_df T) Object | Some cs \<Rightarrow> cs)
      in log_append (Normalisation_texte (length names)) (fold (normalize_column E) names T))"

subsection \<open>clean_address_column\<close>

definition clean_address_text :: "pyenv \<Rightarrow> pystr \<Rightarrow> pystr" where
  "clean_address_text E s = sub_special_chars E (sub_whitespace_runs E (strip E s))"

text \<open>\<open>self.df.loc[~mask, address_col] = None\<close> with \<open>mask = str.len() >= min_length\<close>.\<close>

definition invalidate_short :: "int \<Rightarrow> pystr \<Rightarrow> cell" where
  "invalidate_short min_length s = (if int (length s) \<ge> min_length then Str s else PyNone)"

definition clean_address_column :: "pyenv \<Rightarrow> string \<Rightarrow> int \<Rightarrow> transformer \<Rightarrow> transformer" where
  "clean_address_column E address_col min_length T =
     (case get_column (self_df T) address_col of
        None \<Rightarrow> T
      | Some c \<Rightarrow>
          (let initial_count = int (notna_count (col_cells c));
               cleaned = map (\<lambda>x. clean_address_text E (astype_str E x)) (col_cells c);
               masked = map (invalidate_short min_length) cleaned;
               cleaned_count = int (notna_count masked);
               removed = initial_count - cleaned_count;
               T' = T\<lparr>self_df := set_column (self_df T) address_col Object masked\<rparr>
           in if removed > 0 then log_append (Adresses_nettoyees removed min_length) T' else T'))"

subsection \<open>filter_outliers\<close>

text \<open>
  The two keep conditions, row by row. A comparison with \<open>NaN\<close> is false, so a row whose cell
  is missing never satisfies either.
\<close>

definition within_bounds :: "real \<Rightarrow> real \<Rightarrow> cell \<Rightarrow> bool" where
  "within_bounds lo hi c = (case c of Num v \<Rightarrow> v \<ge> lo \<and> v \<le> hi | _ \<Rightarrow> False)"

definition zscore_below :: "real \<Rightarrow> real \<Rightarrow> real \<Rightarrow> cell \<Rightarrow> bool" where
  "zscore_below mean std threshold c =
     (case c of Num v \<Rightarrow> \<bar>(v - mean) / std\<bar> < threshold | _ \<Rightarrow> False)"

text \<open>
  One pass of the loop body for the column \<open>col\<close>. The statistics are those of a numeric
  column; on a column of another dtype that has a value present pandas raises.
\<close>

definition filter_outliers_column :: "string \<Rightarrow> real \<Rightarrow> string \<Rightarrow> dataframe \<Rightarrow> error + dataframe" where
  "filter_outliers_column method threshold col d =
     (case get_column d col of
        None \<Rightarrow> Inr d
      | Some c \<Rightarrow>
          if method = ''iqr'' \<and> notna_count (col_cells c) > 0 then
            (if col_dtype c \<noteq> Numeric then Inl TypeError
             else case (quantile 0.25 (col_cells c), quantile 0.75 (col_cells c)) of
                    (Num Q1, Num Q3) \<Rightarrow>
                      (let IQR = Q3 - Q1
                       in if IQR > 0
                          then (let lo = Q1 - threshold * IQR; hi = Q3 + threshold * IQR
                                in Inr (select_rows (map (within_bounds lo hi) (col_cells c)) d))
                          else Inr d)
                  | _ \<Rightarrow> Inr d)
          else if method = ''zscore'' \<and> notna_count (col_cells c) > 0 then
            (if col_dtype c \<noteq> Numeric then Inl TypeError
             else case (series_mean (col_cells c), series_std (col_cells c)) of
                    (Num mean, Num std) \<Rightarrow>
                      if std > 0
                      then Inr (select_rows (map (zscore_below mean std threshold) (col_cells c)) d)
                      else Inr d
                  | _ \<Rightarrow> Inr d)
          else Inr d)"

fun filter_outliers_loop :: "string \<Rightarrow> real \<Rightarrow> string list \<Rightarrow> dataframe \<Rightarrow> error + dataframe" where
  "filter_outliers_loop method threshold [] d = Inr d"
| "filter_outliers_loop method threshold (col # cols) d =
     (case filter_outliers_column method threshold col d of
        Inl e \<Rightarrow> Inl e
      | Inr d' \<Rightarrow> filter_outliers_loop method threshold cols d')"

definition filter_outliers :: "string list \<Rightarrow> string \<Rightarrow> real \<Rightarrow> transformer \<Rightarrow> error + transformer" where
  "filter_outliers cols method threshold T =
     (let initial = nrows (self_df T)
      in case filter_outliers_loop method threshold cols (self_df T) of
           Inl e \<Rightarrow> Inl e
         | Inr d' \<Rightarrow>
             (let removed = initial - nrows d'; T' = T\<lparr>self_df := d'\<rparr>
              in Inr (if removed > 0 then log_append (Outliers_filtres method removed) T' else T')))"

subsection \<open>add_derived_columns and apply_custom\<close>

text \<open>
  \<open>add_derived_columns\<close> assigns up to four new columns into the frame and logs one line for
  each. What it computes (\<open>pd.cut\<close>, \<open>pd.to_numeric\<close>, \<open>Series.map\<close>) is not modelled: the
  derivation is a parameter giving the frame with the new columns and the log lines.
  \<open>apply_custom\<close> applies a function supplied by the caller, taken to be a function of the
  frame's contents.
\<close>

definition add_derived_columns ::
  "(dataframe \<Rightarrow> dataframe \<times> log_entry list) \<Rightarrow> transformer \<Rightarrow> transformer" where
  "add_derived_columns derive T =
     (case derive (self_df T) of
        (d', entries) \<Rightarrow>
          T\<lparr>self_df := d', transformations_applied := transformations_applied T @ entries\<rparr>)"

definition apply_custom :: "(dataframe \<Rightarrow> dataframe) \<Rightarrow> string \<Rightarrow> transformer \<Rightarrow> transformer" where
  "apply_custom func name T = log_append (Custom name) (T\<lparr>self_df := func (self_df T)\<rparr>)"

subsection \<open>Address cleaning in the words of the specification\<close>

text \<open>
  Collapsing whitespace runs: a whitespace character that follows a whitespace character is
  dropped, and those that remain become spaces. \<open>spec_address_char\<close> is the specification's
  list of characters to keep, \<open>kept_address_char\<close> the same list with the underscore added.
\<close>

fun squeeze_whitespace :: "pyenv \<Rightarrow> pystr \<Rightarrow> pystr" where
  "squeeze_whitespace E (a # b # cs) =
     (if isspace E a \<and> isspace E b then squeeze_whitespace E (a # cs)
      else a # squeeze_whitespace E (b # cs))"
| "squeeze_whitespace E cs = cs"

definition spec_collapse :: "pyenv \<Rightarrow> pystr \<Rightarrow> pystr" where
  "spec_collapse E s = map (\<lambda>c. if isspace E c then 32 else c) (squeeze_whitespace E s)"

definition spec_address_char :: "pyenv \<Rightarrow> codepoint \<Rightarrow> bool" where
  "spec_address_char E c = (isalnum E c \<or> isspace E c \<or> c = 44 \<or> c = 46 \<or> c = 45)"

definition kept_address_char :: "pyenv \<Rightarrow> codepoint \<Rightarrow> bool" where
  "kept_address_char E c = (spec_address_char E c \<or> c = 95)"

definition spec_clean_cell :: "(codepoint \<Rightarrow> bool) \<Rightarrow> pyenv \<Rightarrow> int \<Rightarrow> pystr \<Rightarrow> cell" where
  "spec_clean_cell keep E min_length s =
     (let r = filter keep (spec_collapse E (strip E s))
      in if int (length r) < min_length then PyNone else Str r)"

subsection \<open>Reading the result of text normalization\<close>

text \<open>
  The columns \<open>normalize_text_columns\<close> goes through, the number of missing cells of a named
  column, and the text \<open>str\<close> and \<open>lower\<close> leave of a missing cell.
\<close>

definition normalized_names :: "dataframe \<Rightarrow> string list option \<Rightarrow> string list" where
  "normalized_names d cols = (case cols of None \<Rightarrow> select_dtypes d Object | Some cs \<Rightarrow> cs)"

definition column_null_count :: "dataframe \<Rightarrow> string \<Rightarrow> nat" where
  "column_null_count d n = (case get_column d n of None \<Rightarrow> 0 | Some c \<Rightarrow> null_count (col_cells c))"

definition missing_text :: "cell \<Rightarrow> cell" where
  "missing_text c = (if c = NaN then Str (ascii ''nan'') else Str (ascii ''none''))"

definition normalized_at :: "column \<Rightarrow> nat \<Rightarrow> cell \<Rightarrow> nat \<Rightarrow> bool" where
  "normalized_at c' i x n =
     (length (col_cells c') = n \<and> col_cells c' ! i = x \<and> list_all is_str (col_cells c'))"

subsection \<open>Outliers in the words of the specification\<close>

text \<open>
  A value lies outside the bounds when it is a number below the lower or above the upper
  one; it is a z-score outlier when its distance to the mean, in standard deviations, reaches
  the threshold. A missing cell is neither.
\<close>

definition spec_outside :: "real \<Rightarrow> real \<Rightarrow> cell \<Rightarrow> bool" where
  "spec_outside lo hi c = (case c of Num v \<Rightarrow> v < lo \<or> hi < v | _ \<Rightarrow> False)"



section \<open>Quality analyzer\<close>

subsection \<open>Grade\<close>

text \<open>
  \<open>QualityAnalyzer.determine_quality_grade\<close> (quality.py): the score starts at 0.0 and
  three statements add to it in turn; the grade is read off an if/elif chain.
\<close>

definition add_completeness :: "real \<Rightarrow> real \<Rightarrow> real" where
  "add_completeness completeness score = score + min (completeness * 40) 40"

definition add_duplicates :: "real \<Rightarrow> real \<Rightarrow> real" where
  "add_duplicates duplicates_pct score =
     (if duplicates_pct \<le> 1 then score + 30
      else if duplicates_pct \<le> 5 then score + 20
      else if duplicates_pct \<le> 10 then score + 10
      else score)"

definition add_geocoding :: "dataframe \<Rightarrow> real \<Rightarrow> real \<Rightarrow> real" where
  "add_geocoding df geo_rate score =
     (if has_column df ''geocoding_score'' then score + min (geo_rate / 100 * 30) 30
      else score + 30)"

definition final_grade :: "real \<Rightarrow> string" where
  "final_grade score =
     (if score \<ge> 90 then ''A''
      else if score \<ge> 75 then ''B''
      else if score \<ge> 60 then ''C''
      else if score \<ge> 40 then ''D''
      else ''F'')"

definition determine_quality_grade :: "dataframe \<Rightarrow> real \<Rightarrow> real \<Rightarrow> real \<Rightarrow> string" where
  "determine_quality_grade df completeness duplicates_pct geo_rate =
     final_grade
       (add_geocoding df geo_rate
          (add_duplicates duplicates_pct
             (add_completeness completeness 0)))"




subsection \<open>Metrics\<close>

definition calculate_completeness :: "dataframe \<Rightarrow> real" where
  "calculate_completeness d =
     (if df_empty d then 0
      else (let total_cells = nrows d * length (columns d);
                non_null_cells = sum_list (map (\<lambda>c. notna_count (col_cells c)) (columns d))
            in real non_null_cells / real total_cells))"

definition possible_ids :: "string list" where
  "possible_ids = [''code'', ''id'', ''product_id'', ''siret'', ''uuid'']"

text \<open>The key columns \<open>count_duplicates\<close> finds for itself when it is given none.\<close>

definition auto_id_columns :: "dataframe \<Rightarrow> error + string list" where
  "auto_id_columns d =
     (let id_columns = filter (has_column d) possible_ids
      in if id_columns = []
         then (case columns d of [] \<Rightarrow> Inl IndexError | c # _ \<Rightarrow> Inr [col_name c])
         else Inr id_columns)"

definition count_duplicates :: "dataframe \<Rightarrow> string list option \<Rightarrow> error + nat \<times> real" where
  "count_duplicates d id_columns =
     (if df_empty d then Inr (0, 0)
      else case (case id_columns of None \<Rightarrow> auto_id_columns d | Some cs \<Rightarrow> Inr cs) of
             Inl e \<Rightarrow> Inl e
           | Inr ids \<Rightarrow>
               if ids = [] then Inr (0, 0)
               else (case duplicated d ids of
                       Inl e \<Rightarrow> Inl e
                     | Inr m \<Rightarrow>
                         (let duplicates = length (filter id m);
                              pct = (if nrows d > 0 then real duplicates / real (nrows d) * 100
                                     else 0)
                          in Inr (duplicates, pct))))"

text \<open>
  \<open>notna() & (score >= 0.5)\<close>, cell by cell. Comparing a string with a float raises; a
  missing cell compares false; \<open>True\<close> counts as 1.
\<close>

definition cell_value :: "cell \<Rightarrow> real" where
  "cell_value c = (case c of Num v \<Rightarrow> v | PyBool b \<Rightarrow> (if b then 1 else 0) | _ \<Rightarrow> 0)"

definition valid_geo_cell :: "cell \<Rightarrow> bool" where
  "valid_geo_cell c = (notna c \<and> cell_value c \<ge> 0.5)"

definition calculate_geocoding_stats :: "dataframe \<Rightarrow> error + real \<times> real" where
  "calculate_geocoding_stats d =
     (if df_empty d \<or> \<not> has_column d ''geocoding_score'' then Inr (0, 0)
      else case get_column d ''geocoding_score'' of
             None \<Rightarrow> Inr (0, 0)
           | Some c \<Rightarrow>
               if list_ex is_str (col_cells c) then Inl TypeError
               else (let valid_geo = filter valid_geo_cell (col_cells c)
                     in if nrows d = 0 then Inr (0, 0)
                        else (let success_rate = real (length valid_geo) / real (nrows d) * 100;
                                  avg_score = (if valid_geo \<noteq> []
                                               then sum_list (map cell_value valid_geo)
                                                      / real (length valid_geo)
                                               else 0)
                              in Inr (success_rate, avg_score))))"

text \<open>
  \<open>round(x, ndigits)\<close>: to the nearest multiple of \<open>10^-ndigits\<close>, a tie going to the even
  neighbour.
\<close>

definition round_half_even :: "real \<Rightarrow> int" where
  "round_half_even x =
     (let f = \<lfloor>x\<rfloor>; r = x - of_int f
      in if r < 1 / 2 then f else if r > 1 / 2 then f + 1 else if even f then f else f + 1)"

definition py_round :: "real \<Rightarrow> nat \<Rightarrow> real" where
  "py_round x ndigits = of_int (round_half_even (x * 10 ^ ndigits)) / 10 ^ ndigits"

text \<open>The dictionary of null counts, as the list of its items in column order.\<close>

definition calculate_null_counts :: "dataframe \<Rightarrow> (string \<times> nat \<times> real) list" where
  "calculate_null_counts d =
     (if df_empty d then []
      else map (\<lambda>c. (let n = null_count (col_cells c);
                         pct = (if nrows d > 0 then real n / real (nrows d) * 100 else 0)
                     in (col_name c, n, py_round pct 2)))
               (columns d))"

text \<open>
  Modelled from the spec: the class \<open>QualityMetrics\<close> of pipeline/models.py, which is not
  among the sources. The specification's data model lists its attributes; it is taken to be
  a plain record whose construction checks nothing.
\<close>

record QualityMetrics =
  total_records :: nat
  valid_records :: nat
  completeness_score :: real
  duplicates_count :: nat
  duplicates_percent :: real
  geocoding_success_rate :: real
  avg_geocoding_score :: real
  null_counts :: "(string \<times> nat \<times> real) list"
  quality_grade :: string

definition analyze :: "dataframe \<Rightarrow> error + QualityMetrics" where
  "analyze d =
     (let completeness = calculate_completeness d
      in case count_duplicates d None of
           Inl e \<Rightarrow> Inl e
         | Inr (duplicates, dup_pct) \<Rightarrow>
             (case calculate_geocoding_stats d of
                Inl e \<Rightarrow> Inl e
              | Inr (geo_rate, geo_avg) \<Rightarrow>
                  (let nulls = calculate_null_counts d;
                       valid = nrows d - duplicates;
                       grade = determine_quality_grade d completeness dup_pct geo_rate
                   in Inr \<lparr>total_records = nrows d,
                           valid_records = valid,
                           completeness_score = py_round completeness 3,
                           duplicates_count = duplicates,
                           duplicates_percent = py_round dup_pct 2,
                           geocoding_success_rate = py_round geo_rate 2,
                           avg_geocoding_score = py_round geo_avg 3,
                           null_counts = nulls,
                           quality_grade = grade\<rparr>)))"

subsection \<open>Duplicate counting in the words of the specification\<close>

text \<open>
  A row repeats an earlier row under the key columns \<open>ks\<close> when some earlier row has the
  same cell in each of them.
\<close>

definition repeats_earlier_row :: "dataframe \<Rightarrow> string list \<Rightarrow> nat \<Rightarrow> bool" where
  "repeats_earlier_row d ks i = (\<exists>j<i. \<forall>k \<in> set ks. cell_at d k j = cell_at d k i)"

definition spec_duplicate_count :: "dataframe \<Rightarrow> string list \<Rightarrow> nat" where
  "spec_duplicate_count d ks = card {i. i < nrows d \<and> repeats_earlier_row d ks i}"



section \<open>Frames for evaluation\<close>

text \<open>
  An environment for evaluating on ASCII text, where the Unicode tables are never consulted.
\<close>

definition ascii_env :: pyenv where
  "ascii_env = \<lparr>uni_space = (\<lambda>_. False), uni_alnum = (\<lambda>_. False), uni_decomp = (\<lambda>c. [c]),
                num_str = (\<lambda>_. [])\<rparr>"

text \<open>An address with an underscore, and a text column with a \<open>None\<close> and a \<open>NaN\<close>.\<close>

definition underscore_store :: dataframe where
  "underscore_store = \<lparr>nrows = 1, columns =
      [\<lparr>col_name = ''stores'', col_dtype = Object, col_cells = [Str (ascii ''ab_cd'')]\<rparr>]\<rparr>"

definition brands_with_none :: dataframe where
  "brands_with_none = \<lparr>nrows = 3, columns =
      [\<lparr>col_name = ''brands'', col_dtype = Object,
        col_cells = [Str (ascii ''Lindt''), PyNone, NaN]\<rparr>]\<rparr>"

text \<open>Two of the store names of the test fixture \<open>sample_df\<close>, one of them padded with spaces.\<close>

definition padded_store :: dataframe where
  "padded_store = \<lparr>nrows = 2, columns =
      [\<lparr>col_name = ''stores'', col_dtype = Object,
        col_cells = [Str (ascii ''  Leclerc   Toulouse  ''), Str (ascii ''Super U'')]\<rparr>]\<rparr>"


definition gap_frame :: dataframe where
  "gap_frame = \<lparr>nrows = 4, columns =
      [\<lparr>col_name = ''x'', col_dtype = Numeric, col_cells = [Num 1, Num 2, Num 3, NaN]\<rparr>]\<rparr>"

text \<open>
  Codes that differ by case only, a name that starts with the euro sign (code point 8364),
  and a frame with a code, a missing number and a padded name.
\<close>

definition case_codes :: dataframe where
  "case_codes = \<lparr>nrows = 2, columns =
      [\<lparr>col_name = ''code'', col_dtype = Object,
        col_cells = [Str (ascii ''A''), Str (ascii ''a'')]\<rparr>]\<rparr>"

definition euro_name :: dataframe where
  "euro_name = \<lparr>nrows = 1, columns =
      [\<lparr>col_name = ''name'', col_dtype = Object, col_cells = [Str [8364, 32, 97]]\<rparr>]\<rparr>"

definition small_catalog :: dataframe where
  "small_catalog = \<lparr>nrows = 2, columns =
      [\<lparr>col_name = ''code'', col_dtype = Object,
        col_cells = [Str (ascii ''001''), Str (ascii ''002'')]\<rparr>,
       \<lparr>col_name = ''energy_100g'', col_dtype = Numeric, col_cells = [Num 500, NaN]\<rparr>,
       \<lparr>col_name = ''product_name'', col_dtype = Object,
        col_cells = [Str (ascii ''  Chocolat Noir  ''), PyNone]\<rparr>]\<rparr>"

text \<open>The output of the cleaning pass on \<open>small_catalog\<close>, and on the codes and the name above.\<close>

definition cleaned_catalog :: dataframe where
  "cleaned_catalog = \<lparr>nrows = 2, columns =
      [\<lparr>col_name = ''code'', col_dtype = Object,
        col_cells = [Str (ascii ''001''), Str (ascii ''002'')]\<rparr>,
       \<lparr>col_name = ''energy_100g'', col_dtype = Numeric, col_cells = [Num 500, Num 500]\<rparr>,
       \<lparr>col_name = ''product_name'', col_dtype = Object,
        col_cells = [Str (ascii ''chocolat noir''), Str (ascii ''unknown'')]\<rparr>]\<rparr>"

definition lowered_codes :: dataframe where
  "lowered_codes = \<lparr>nrows = 2, columns =
      [\<lparr>col_name = ''code'', col_dtype = Object,
        col_cells = [Str (ascii ''a''), Str (ascii ''a'')]\<rparr>]\<rparr>"

definition space_name :: dataframe where
  "space_name = \<lparr>nrows = 1, columns =
      [\<lparr>col_name = ''name'', col_dtype = Object, col_cells = [Str (ascii '' a'')]\<rparr>]\<rparr>"

section \<open>Enricher: address extraction\<close>

text \<open>
  A product is a Python dictionary. Of its values only three kinds matter here: \<open>None\<close>, a
  string, and any other object.
\<close>

datatype pyvalue = VNone | VStr pystr | VOther

type_synonym product = "string \<rightharpoonup> pyvalue"

definition dict_get :: "product \<Rightarrow> string \<Rightarrow> pyvalue \<Rightarrow> pyvalue" where
  "dict_get p k dflt = (case p k of None \<Rightarrow> dflt | Some v \<Rightarrow> v)"

text \<open>The inner loop of \<open>DataEnricher.extract_addresses\<close> (enricher.py), over the parts of one address.\<close>

definition add_part :: "pyenv \<Rightarrow> pystr \<Rightarrow> pystr set \<Rightarrow> pystr set" where
  "add_part E part addresses =
     (let cleaned = strip E part
      in if length cleaned > 3 then insert cleaned addresses else addresses)"

text \<open>
  The outer loop body: \<open>addr and isinstance(addr, str) and addr.strip()\<close> guards the split.
\<close>

definition add_product :: "pyenv \<Rightarrow> string \<Rightarrow> product \<Rightarrow> pystr set \<Rightarrow> pystr set" where
  "add_product E address_field p addresses =
     (case dict_get p address_field (VStr []) of
        VStr addr \<Rightarrow>
          if addr \<noteq> [] \<and> strip E addr \<noteq> []
          then fold (add_part E) (split 44 addr) addresses
          else addresses
      | _ \<Rightarrow> addresses)"

definition extract_addresses_set :: "pyenv \<Rightarrow> product list \<Rightarrow> string \<Rightarrow> pystr set" where
  "extract_addresses_set E products address_field = fold (add_product E address_field) products {}"

text \<open>
  \<open>list(addresses)\<close> lists the set in an order Python does not fix. \<open>extract_addresses\<close> is
  therefore the relation between the arguments and every list the call may return.
\<close>

definition list_of_set :: "'a set \<Rightarrow> 'a list \<Rightarrow> bool" where
  "list_of_set S xs = (set xs = S \<and> distinct xs)"

definition extract_addresses :: "pyenv \<Rightarrow> product list \<Rightarrow> string \<Rightarrow> pystr list \<Rightarrow> bool" where
  "extract_addresses E products address_field result =
     list_of_set (extract_addresses_set E products address_field) result"

text \<open>The extraction in the words of the specification, for comparison with the code.\<close>

definition spec_address_parts :: "pyenv \<Rightarrow> pystr \<Rightarrow> pystr set" where
  "spec_address_parts E addr = {strip E part | part. part \<in> set (split 44 addr) \<and> \<not> length (strip E part) < 4}"

definition spec_addresses :: "pyenv \<Rightarrow> product list \<Rightarrow> string \<Rightarrow> pystr set" where
  "spec_addresses E products address_field =
     (\<Union>p \<in> set products. case p address_field of Some (VStr addr) \<Rightarrow> spec_address_parts E addr | _ \<Rightarrow> {})"

text \<open>The four records of the test fixture \<open>sample_products\<close> (tests/test_enricher.py), address field only.\<close>

definition sample_products :: "product list" where
  "sample_products =
     [[''stores'' \<mapsto> VStr (ascii ''Carrefour Paris, Auchan'')],
      [''stores'' \<mapsto> VStr (ascii ''Leclerc Toulouse'')],
      [''stores'' \<mapsto> VNone],
      [''stores'' \<mapsto> VStr (ascii ''Carrefour Paris'')]]"

section \<open>The cleaning pass\<close>

text \<open>
  Deduplicate, impute, normalize, with the default key and the default columns, on a new
  \<open>DataTransformer\<close>; \<open>get_result\<close> of the transformer returned is the output of the pass.
\<close>

definition cleaning_pass :: "pyenv \<Rightarrow> string \<Rightarrow> pystr \<Rightarrow> dataframe \<Rightarrow> error + transformer" where
  "cleaning_pass E numeric_strategy text_strategy d =
     (case remove_duplicates None (DataTransformer d) of
        Inl e \<Rightarrow> Inl e
      | Inr T \<Rightarrow>
          Inr (normalize_text_columns E None
                 (handle_missing_values numeric_strategy text_strategy T)))"

text \<open>
  The conditions under which a second pass finds nothing to do: no row of the frame repeats
  an earlier row under the default key of \<open>remove_duplicates\<close>, and no string of a text column
  has leading or trailing whitespace.
\<close>

definition no_repeated_key :: "dataframe \<Rightarrow> bool" where
  "no_repeated_key d = (\<forall>ks. dedup_default_subset d = Inr ks \<longrightarrow> spec_duplicate_count d ks = 0)"

definition stripped_text :: "pyenv \<Rightarrow> dataframe \<Rightarrow> bool" where
  "stripped_text E d =
     (\<forall>c \<in> set (columns d). col_dtype c = Object \<longrightarrow>
        (\<forall>s. Str s \<in> set (col_cells c) \<longrightarrow> strip E s = s))"

definition doublons_entry :: "log_entry \<Rightarrow> bool" where
  "doublons_entry e = (case e of Doublons_supprimes _ \<Rightarrow> True | _ \<Rightarrow> False)"

subsection \<open>The pass, column by column\<close>

text \<open>
  What the loops of \<open>handle_missing_values\<close> and \<open>normalize_text_columns\<close> do to one column,
  and a frame with a function applied to each of its columns; the theorems relate the loops
  over column names to these.
\<close>

definition map_columns :: "(column \<Rightarrow> column) \<Rightarrow> dataframe \<Rightarrow> dataframe" where
  "map_columns f d = d\<lparr>columns := map f (columns d)\<rparr>"

definition frame_step :: "(column \<Rightarrow> column) \<Rightarrow> string \<Rightarrow> dataframe \<Rightarrow> dataframe" where
  "frame_step G n d =
     (case get_column d n of
        None \<Rightarrow> d
      | Some c \<Rightarrow> set_column d n (col_dtype (G c)) (col_cells (G c)))"

definition impute_numeric_col :: "string \<Rightarrow> column \<Rightarrow> column" where
  "impute_numeric_col numeric_strategy c =
     (if null_count (col_cells c) > 0
      then (case numeric_fill_value numeric_strategy (col_cells c) of
              None \<Rightarrow> c
            | Some v \<Rightarrow> c\<lparr>col_cells := fillna v (col_cells c)\<rparr>)
      else c)"

definition impute_text_col :: "pystr \<Rightarrow> column \<Rightarrow> column" where
  "impute_text_col text_strategy c =
     (if null_count (col_cells c) > 0
      then c\<lparr>col_cells := fillna (Str text_strategy) (col_cells c)\<rparr>
      else c)"

definition normalize_col :: "pyenv \<Rightarrow> column \<Rightarrow> column" where
  "normalize_col E c = c\<lparr>col_dtype := Object, col_cells := map (normalize_text E) (col_cells c)\<rparr>"

definition pass_col :: "pyenv \<Rightarrow> string \<Rightarrow> pystr \<Rightarrow> column \<Rightarrow> column" where
  "pass_col E numeric_strategy text_strategy c =
     (case col_dtype c of
        Numeric \<Rightarrow> impute_numeric_col numeric_strategy c
      | Object \<Rightarrow> normalize_col E (impute_text_col text_strategy c)
      | Boolean \<Rightarrow> c)"

definition ascii_lower :: "pystr \<Rightarrow> bool" where
  "ascii_lower s = (\<forall>c \<in> set s. c < 128 \<and> lower_char c = c)"

definition impute_col :: "string \<Rightarrow> pystr \<Rightarrow> column \<Rightarrow> column" where
  "impute_col ns ts c =
     (case col_dtype c of
        Numeric \<Rightarrow> impute_numeric_col ns c
      | Object \<Rightarrow> impute_text_col ts c
      | Boolean \<Rightarrow> c)"

text \<open>The part of well-formedness the pass relies on: one cell per row, and distinct names.\<close>

definition aligned :: "dataframe \<Rightarrow> bool" where
  "aligned d = (list_all (\<lambda>c. length (col_cells c) = nrows d) (columns d) \<and> distinct (column_names d))"

section \<open>Object identity\<close>

text \<open>
  Frames are objects: two variables may refer to the same frame, and an assignment into a
  frame is seen through every reference to it. The heap is the list of the frames created so
  far and a reference is a position in it; \<open>df.copy()\<close> and every pandas operation that
  returns a frame append a new one, an assignment into a frame overwrites its position.
\<close>

type_synonym ref = nat
type_synonym heap = "dataframe list"

definition alloc :: "dataframe \<Rightarrow> heap \<Rightarrow> ref \<times> heap" where
  "alloc d h = (length h, h @ [d])"

definition assign :: "ref \<Rightarrow> dataframe \<Rightarrow> heap \<Rightarrow> heap" where
  "assign r d h = h[r := d]"

text \<open>
  A \<open>DataTransformer\<close> object in its heap: the frame \<open>self.df\<close> refers to, the log, the
  references \<open>get_result\<close> has handed out, and the exception that ended the chain, if any.
\<close>

record chain =
  heap :: heap
  self_ref :: ref
  applied :: "log_entry list"
  returned :: "ref list"
  raised :: "error option"

text \<open>\<open>DataTransformer(df)\<close> for the frame at \<open>a\<close>: \<open>self.df = df.copy()\<close>.\<close>

definition new_transformer :: "ref \<Rightarrow> heap \<Rightarrow> chain" where
  "new_transformer a h =
     (case alloc (h ! a) h of
        (r, h') \<Rightarrow> \<lparr>heap = h', self_ref = r, applied = [], returned = [], raised = None\<rparr>)"

datatype call =
    Remove_duplicates "string list option"
  | Handle_missing_values string pystr
  | Normalize_text_columns "string list option"
  | Clean_address_column string int
  | Filter_outliers "string list" string real
  | Add_derived_columns
  | Apply_custom "dataframe \<Rightarrow> dataframe" string
  | Get_result

text \<open>What a method makes of the contents of \<open>self.df\<close> and of the log.\<close>

definition method_result ::
  "pyenv \<Rightarrow> (dataframe \<Rightarrow> dataframe \<times> log_entry list) \<Rightarrow> call \<Rightarrow> transformer \<Rightarrow> error + transformer" where
  "method_result E derive c T =
     (case c of
        Remove_duplicates keys \<Rightarrow> remove_duplicates keys T
      | Handle_missing_values numeric_strategy text_strategy \<Rightarrow>
          Inr (handle_missing_values numeric_strategy text_strategy T)
      | Normalize_text_columns cols \<Rightarrow> Inr (normalize_text_columns E cols T)
      | Clean_address_column address_col min_length \<Rightarrow>
          Inr (clean_address_column E address_col min_length T)
      | Filter_outliers cols method threshold \<Rightarrow> filter_outliers cols method threshold T
      | Add_derived_columns \<Rightarrow> Inr (add_derived_columns derive T)
      | Apply_custom func name \<Rightarrow> Inr (apply_custom func name T)
      | Get_result \<Rightarrow> Inr T)"

text \<open>
  Where the result goes. \<open>handle_missing_values\<close>, \<open>normalize_text_columns\<close>,
  \<open>clean_address_column\<close> and \<open>add_derived_columns\<close> assign into the frame \<open>self.df\<close> refers to
  (\<open>self.df[col] = ...\<close>, \<open>self.df.loc[...] = None\<close>). \<open>remove_duplicates\<close>, \<open>filter_outliers\<close>
  and \<open>apply_custom\<close> bind \<open>self.df\<close> to the frame an expression returns
  (\<open>self.df = self.df.drop_duplicates(...)\<close>, \<open>self.df = self.df[...]\<close>, \<open>self.df = func(self.df)\<close>),
  taken to be a new frame each time.
\<close>

definition assigns_in_place :: "call \<Rightarrow> bool" where
  "assigns_in_place c =
     (case c of
        Handle_missing_values _ _ \<Rightarrow> True
      | Normalize_text_columns _ \<Rightarrow> True
      | Clean_address_column _ _ \<Rightarrow> True
      | Add_derived_columns \<Rightarrow> True
      | _ \<Rightarrow> False)"

text \<open>
  One call on the chain. After an exception no further call of the chain runs.
  \<open>get_result\<close> returns \<open>self.df.copy()\<close>.
\<close>

definition exec ::
  "pyenv \<Rightarrow> (dataframe \<Rightarrow> dataframe \<times> log_entry list) \<Rightarrow> call \<Rightarrow> chain \<Rightarrow> chain" where
  "exec E derive c w =
     (if raised w \<noteq> None then w
      else if c = Get_result
      then (case alloc (heap w ! self_ref w) (heap w) of
              (r, h') \<Rightarrow> w\<lparr>heap := h', returned := returned w @ [r]\<rparr>)
      else (case method_result E derive c
                   \<lparr>self_df = heap w ! self_ref w, transformations_applied = applied w\<rparr> of
              Inl e \<Rightarrow> w\<lparr>raised := Some e\<rparr>
            | Inr T' \<Rightarrow>
                if assigns_in_place c
                then w\<lparr>heap := assign (self_ref w) (self_df T') (heap w),
                       applied := transformations_applied T'\<rparr>
                else (case alloc (self_df T') (heap w) of
                        (r, h') \<Rightarrow>
                          w\<lparr>heap := h', self_ref := r,
                            applied := transformations_applied T'\<rparr>)))"

definition run ::
  "pyenv \<Rightarrow> (dataframe \<Rightarrow> dataframe \<times> log_entry list) \<Rightarrow> call list \<Rightarrow> chain \<Rightarrow> chain" where
  "run E derive calls w = fold (exec E derive) calls w"

text \<open>The caller assigns into a frame it holds a reference to.\<close>

definition caller_assigns :: "ref \<Rightarrow> dataframe \<Rightarrow> chain \<Rightarrow> chain" where
  "caller_assigns r d w = w\<lparr>heap := assign r d (heap w)\<rparr>"

text \<open>A derivation that adds nothing, for evaluation.\<close>

definition no_derivation :: "dataframe \<Rightarrow> dataframe \<times> log_entry list" where
  "no_derivation d = (d, [])"

text \<open>
  The invariant of a chain created in a heap of \<open>n0\<close> frames: \<open>self.df\<close> refers to a frame
  created since, which is none of those handed out. The caller holds the frames that existed
  before and those handed out.
\<close>

definition internal :: "nat \<Rightarrow> chain \<Rightarrow> bool" where
  "internal n0 w =
     (n0 \<le> self_ref w \<and> self_ref w < length (heap w)
      \<and> (\<forall>r \<in> set (returned w). n0 \<le> r \<and> r < length (heap w) \<and> r \<noteq> self_ref w))"

definition held_by_caller :: "nat \<Rightarrow> chain \<Rightarrow> ref \<Rightarrow> bool" where
  "held_by_caller n0 w r = (r < n0 \<or> r \<in> set (returned w))"

section \<open>Grade: theorems\<close>






section \<open>Quality analyzer: theorems\<close>

lemma py_round_zero: "py_round 0 n = 0"
  by (simp add: py_round_def round_half_even_def)

text \<open>
  C6. On an empty frame (no row or no column) \<open>analyze\<close> does not fail: it returns
  completeness 0, duplicate count 0 and percentage 0, geocoding rate 0 and average 0, no
  null counts, and the grade of what is left of the score (30 points for duplicates, and 30
  more when there is no geocoding column: C without that column, F with it).
\<close>

theorem C6_analyze_empty:
  "df_empty d \<Longrightarrow>
   analyze d = Inr \<lparr>total_records = nrows d, valid_records = nrows d,
            completeness_score = 0, duplicates_count = 0, duplicates_percent = 0,
            geocoding_success_rate = 0, avg_geocoding_score = 0, null_counts = [],
            quality_grade = (if has_column d ''geocoding_score'' then ''F'' else ''C'')\<rparr>"
proof -
  assume assms: "df_empty d"
  have c: "calculate_completeness d = 0" using assms by (simp add: calculate_completeness_def)
  have dup: "count_duplicates d None = Inr (0, 0)" using assms by (simp add: count_duplicates_def)
  have geo: "calculate_geocoding_stats d = Inr (0, 0)"
    using assms by (simp add: calculate_geocoding_stats_def)
  have nul: "calculate_null_counts d = []" using assms by (simp add: calculate_null_counts_def)
  have g: "determine_quality_grade d 0 0 0 = (if has_column d ''geocoding_score'' then ''F'' else ''C'')"
    by (simp add: determine_quality_grade_def final_grade_def add_geocoding_def
        add_duplicates_def add_completeness_def)
  show ?thesis
    unfolding analyze_def c dup geo nul
    by (simp add: py_round_zero g)
qed

theorem C6_analyze_empty_witness:
  "df_empty \<lparr>nrows = 0, columns = [\<lparr>col_name = ''geocoding_score'', col_dtype = Numeric, col_cells = []\<rparr>]\<rparr>
   \<and> analyze \<lparr>nrows = 0, columns = [\<lparr>col_name = ''geocoding_score'', col_dtype = Numeric, col_cells = []\<rparr>]\<rparr>
       = Inr \<lparr>total_records = 0, valid_records = 0,
            completeness_score = 0, duplicates_count = 0, duplicates_percent = 0,
            geocoding_success_rate = 0, avg_geocoding_score = 0, null_counts = [],
            quality_grade = ''F''\<rparr>"
proof -
  have e: "df_empty \<lparr>nrows = 0, columns = [\<lparr>col_name = ''geocoding_score'', col_dtype = Numeric, col_cells = []\<rparr>]\<rparr>"
    by (simp add: df_empty_def)
  show ?thesis
    using e C6_analyze_empty [OF e] by (simp add: has_column_def column_names_def)
qed

lemma length_duplicated_from: "length (duplicated_from seen ks) = length ks"
  by (induction ks arbitrary: seen) auto

lemma nth_duplicated_from:
  "i < length ks \<Longrightarrow> duplicated_from seen ks ! i = (ks ! i \<in> set seen \<or> (\<exists>j<i. ks ! j = ks ! i))"
proof (induction ks arbitrary: seen i)
  case Nil
  then show ?case by simp
next
  case (Cons k ks)
  show ?case
  proof (cases i)
    case 0
    then show ?thesis by simp
  next
    case (Suc m)
    then have "m < length ks" using Cons.prems by simp
    from Cons.IH[OF this, of "k # seen"]
    have "duplicated_from (k # seen) ks ! m = (ks ! m \<in> set (k # seen) \<or> (\<exists>j<m. ks ! j = ks ! m))" .
    moreover have "(\<exists>j<Suc m. (k # ks) ! j = ks ! m) \<longleftrightarrow> (k = ks ! m \<or> (\<exists>j<m. ks ! j = ks ! m))"
      by (auto simp: less_Suc_eq_0_disj)
    ultimately show ?thesis using Suc by auto
  qed
qed

lemma count_duplicated_from:
  "length (filter id (duplicated_from [] ks)) = card {i. i < length ks \<and> (\<exists>j<i. ks ! j = ks ! i)}"
proof -
  have "length (filter id (duplicated_from [] ks))
          = card {i. i < length (duplicated_from [] ks) \<and> duplicated_from [] ks ! i}"
    by (simp add: length_filter_conv_card)
  also have "{i. i < length (duplicated_from [] ks) \<and> duplicated_from [] ks ! i}
          = {i. i < length ks \<and> (\<exists>j<i. ks ! j = ks ! i)}"
    by (auto simp: length_duplicated_from nth_duplicated_from)
  finally show ?thesis .
qed

lemma get_column_Some_iff:
  assumes "distinct (column_names d)"
  shows "get_column d n = Some c \<longleftrightarrow> c \<in> set (columns d) \<and> col_name c = n"
proof -
  have "distinct (map col_name cs) \<Longrightarrow> find (\<lambda>c. col_name c = n) cs = Some c \<longleftrightarrow> c \<in> set cs \<and> col_name c = n" for cs
    by (induction cs) auto
  then show ?thesis using assms by (simp add: get_column_def column_names_def)
qed

lemma get_column_None_iff: "get_column d n = None \<longleftrightarrow> \<not> has_column d n"
  by (auto simp: get_column_def has_column_def column_names_def find_None_iff)

lemma row_keys_eq_iff:
  assumes "distinct (column_names d)" "set ks \<subseteq> set (column_names d)" "i < n" "j < n"
  shows "row_keys n (filter (\<lambda>c. col_name c \<in> set ks) (columns d)) ! j
           = row_keys n (filter (\<lambda>c. col_name c \<in> set ks) (columns d)) ! i
         \<longleftrightarrow> (\<forall>k \<in> set ks. cell_at d k j = cell_at d k i)"
proof -
  have "(\<forall>c \<in> set (columns d). col_name c \<in> set ks \<longrightarrow> col_cells c ! j = col_cells c ! i)
          \<longleftrightarrow> (\<forall>k \<in> set ks. cell_at d k j = cell_at d k i)"
  proof (intro iffI ballI impI)
    fix k assume a: "\<forall>c \<in> set (columns d). col_name c \<in> set ks \<longrightarrow> col_cells c ! j = col_cells c ! i"
      and k: "k \<in> set ks"
    then have "has_column d k" using assms(2) by (auto simp: has_column_def)
    then obtain c where c: "get_column d k = Some c"
      using get_column_None_iff[of d k] by (cases "get_column d k") auto
    then have "c \<in> set (columns d)" "col_name c = k"
      using get_column_Some_iff[OF assms(1)] by auto
    with a k c show "cell_at d k j = cell_at d k i" by (simp add: cell_at_def)
  next
    fix c assume a: "\<forall>k \<in> set ks. cell_at d k j = cell_at d k i"
      and c: "c \<in> set (columns d)" "col_name c \<in> set ks"
    then have "get_column d (col_name c) = Some c"
      using get_column_Some_iff[OF assms(1)] by simp
    with a c show "col_cells c ! j = col_cells c ! i" by (auto simp: cell_at_def)
  qed
  then show ?thesis using assms(3,4) by (auto simp: row_keys_def)
qed







section \<open>Address extraction: theorems\<close>

lemma fold_add_part:
  "fold (add_part E) parts A = A \<union> {strip E part | part. part \<in> set parts \<and> \<not> length (strip E part) < 4}"
  by (induction parts arbitrary: A) (auto simp: add_part_def Let_def)

lemma split_parts_subset_all: "\<forall>p \<in> set (split sep s). set p \<subseteq> set s"
proof (induction s)
  case Nil
  then show ?case by simp
next
  case (Cons c cs)
  show ?case
  proof (cases "split sep cs")
    case Nil
    then show ?thesis by auto
  next
    case (Cons q qs)
    with Cons.IH have "set q \<subseteq> set cs" "\<forall>p \<in> set qs. set p \<subseteq> set cs" by auto
    then show ?thesis using Cons by auto
  qed
qed

lemma split_parts_subset: "p \<in> set (split sep s) \<Longrightarrow> set p \<subseteq> set s"
  using split_parts_subset_all by blast

lemma split_nonempty: "split sep s \<noteq> []"
  by (induction s) (auto split: list.splits)

lemma strip_empty_iff: "strip E s = [] \<longleftrightarrow> (\<forall>c \<in> set s. isspace E c)"
proof
  assume "strip E s = []"
  then have a: "\<forall>c \<in> set (dropWhile (isspace E) s). isspace E c"
    by (simp add: strip_def rstrip_def lstrip_def)
  have "dropWhile (isspace E) s = []"
  proof (cases "dropWhile (isspace E) s")
    case Nil then show ?thesis .
  next
    case (Cons x xs)
    then have "\<not> isspace E x" using hd_dropWhile[of "isspace E" s] by simp
    moreover have "isspace E x" using a Cons by simp
    ultimately show ?thesis by simp
  qed
  then show "\<forall>c \<in> set s. isspace E c" by simp
next
  assume "\<forall>c \<in> set s. isspace E c"
  then show "strip E s = []"
    by (auto simp: strip_def rstrip_def lstrip_def dest: set_dropWhileD)
qed

lemma blank_address_no_parts:
  assumes "strip E addr = []"
  shows "spec_address_parts E addr = {}"
proof -
  have "strip E p = []" if "p \<in> set (split 44 addr)" for p
    using that assms split_parts_subset[of p 44 addr] by (auto simp: strip_empty_iff)
  then show ?thesis by (auto simp: spec_address_parts_def)
qed

lemma add_product_spec:
  "add_product E f p A = A \<union> (case p f of Some (VStr addr) \<Rightarrow> spec_address_parts E addr | _ \<Rightarrow> {})"
proof (cases "p f")
  case None
  then show ?thesis by (simp add: add_product_def dict_get_def strip_def rstrip_def lstrip_def)
next
  case (Some v)
  show ?thesis
  proof (cases v)
    case (VStr addr)
    show ?thesis
    proof (cases "strip E addr = []")
      case True
      then show ?thesis using Some VStr
        by (simp add: add_product_def dict_get_def blank_address_no_parts)
    next
      case False
      then have "addr \<noteq> []" by (auto simp: strip_def rstrip_def lstrip_def)
      then show ?thesis using Some VStr False
        by (simp add: add_product_def dict_get_def fold_add_part spec_address_parts_def)
    qed
  qed (use Some in \<open>simp_all add: add_product_def dict_get_def\<close>)
qed

lemma fold_add_product:
  "fold (add_product E f) ps A
     = A \<union> (\<Union>p \<in> set ps. case p f of Some (VStr addr) \<Rightarrow> spec_address_parts E addr | _ \<Rightarrow> {})"
  by (induction ps arbitrary: A) (auto simp: add_product_spec)

lemma extract_addresses_set_spec:
  "extract_addresses_set E ps f = spec_addresses E ps f"
  by (simp add: extract_addresses_set_def spec_addresses_def fold_add_product)

lemma finite_add_part: "finite A \<Longrightarrow> finite (fold (add_part E) parts A)"
  by (induction parts arbitrary: A) (auto simp: add_part_def Let_def)

lemma finite_add_product: "finite A \<Longrightarrow> finite (add_product E f p A)"
  by (auto simp: add_product_def finite_add_part split: pyvalue.splits)

lemma finite_fold_add_product: "finite A \<Longrightarrow> finite (fold (add_product E f) ps A)"
  by (induction ps arbitrary: A) (auto simp: finite_add_product)

lemma extract_addresses_returns: "\<exists>result. extract_addresses E ps f result"
proof -
  have "finite (extract_addresses_set E ps f)"
    by (simp add: extract_addresses_set_def finite_fold_add_product)
  then show ?thesis
    using finite_distinct_list by (auto simp: extract_addresses_def list_of_set_def)
qed

lemma sample_addresses:
  "extract_addresses_set E sample_products ''stores''
     = {ascii ''Carrefour Paris'', ascii ''Auchan'', ascii ''Leclerc Toulouse''}"
  by (simp add: extract_addresses_set_def sample_products_def add_product_def dict_get_def
      add_part_def strip_def rstrip_def lstrip_def isspace_def ascii_def Let_def
      insert_commute)

text \<open>
  C10. A call of \<open>extract_addresses\<close> returns a list without repetition whose elements are
  exactly the trimmed comma-separated parts, at least 4 characters long, of the string-valued
  address fields of the records (compared as exact strings). On the four sample records it
  returns the 3 strings Carrefour Paris, Auchan and Leclerc Toulouse, in some order.
\<close>

theorem C10_extract_addresses:
  "(\<exists>r. extract_addresses E products address_field r)
   \<and> (extract_addresses E products address_field result
        \<longrightarrow> distinct result \<and> set result = spec_addresses E products address_field)
   \<and> (extract_addresses E sample_products ''stores'' result
        \<longrightarrow> length result = 3
            \<and> set result = {ascii ''Carrefour Paris'', ascii ''Auchan'', ascii ''Leclerc Toulouse''})"
proof (intro conjI impI)
  show "\<exists>r. extract_addresses E products address_field r"
    by (rule extract_addresses_returns)
next
  assume "extract_addresses E products address_field result"
  then show "distinct result"
    by (simp add: extract_addresses_def list_of_set_def)
next
  assume "extract_addresses E products address_field result"
  then show "set result = spec_addresses E products address_field"
    by (simp add: extract_addresses_def list_of_set_def extract_addresses_set_spec)
next
  assume a: "extract_addresses E sample_products ''stores'' result"
  then have s: "set result = {ascii ''Carrefour Paris'', ascii ''Auchan'', ascii ''Leclerc Toulouse''}"
    and d: "distinct result"
    by (simp_all add: extract_addresses_def list_of_set_def sample_addresses)
  have "card (set result) = 3"
    unfolding s by (simp add: ascii_def)
  with d show "length result = 3"
    by (simp add: distinct_card)
  show "set result = {ascii ''Carrefour Paris'', ascii ''Auchan'', ascii ''Leclerc Toulouse''}"
    by (rule s)
qed

theorem C10_extract_addresses_witness:
  "extract_addresses ascii_env sample_products ''stores''
     [ascii ''Auchan'', ascii ''Leclerc Toulouse'', ascii ''Carrefour Paris'']
   \<and> length [ascii ''Auchan'', ascii ''Leclerc Toulouse'', ascii ''Carrefour Paris''] = 3
   \<and> set [ascii ''Auchan'', ascii ''Leclerc Toulouse'', ascii ''Carrefour Paris'']
       = spec_addresses ascii_env sample_products ''stores''"
proof -
  have "extract_addresses ascii_env sample_products ''stores''
          [ascii ''Auchan'', ascii ''Leclerc Toulouse'', ascii ''Carrefour Paris'']"
    unfolding extract_addresses_def list_of_set_def sample_addresses
    by (auto simp: ascii_def)
  then show ?thesis
    using C10_extract_addresses [of ascii_env sample_products "''stores''"
        "[ascii ''Auchan'', ascii ''Leclerc Toulouse'', ascii ''Carrefour Paris'']"]
    by simp
qed

section \<open>Transformer: theorems\<close>

lemma get_column_set_column_same:
  "get_column d n = Some c \<Longrightarrow>
   get_column (set_column d n t cs) n = Some (c\<lparr>col_dtype := t, col_cells := cs\<rparr>)"
proof -
  have "find (\<lambda>c. col_name c = n) xs = Some c \<Longrightarrow>
        find (\<lambda>c. col_name c = n)
          (map (\<lambda>c. if col_name c = n then c\<lparr>col_dtype := t, col_cells := cs\<rparr> else c) xs)
        = Some (c\<lparr>col_dtype := t, col_cells := cs\<rparr>)" for xs
    by (induction xs) auto
  moreover assume g: "get_column d n = Some c"
  moreover from g have "has_column d n" using get_column_None_iff[of d n] by auto
  ultimately show ?thesis by (simp add: get_column_def set_column_def)
qed

lemma get_column_set_column_other:
  assumes "n' \<noteq> n"
  shows "get_column (set_column d n t cs) n' = get_column d n'"
proof -
  have a: "find (\<lambda>c. col_name c = n')
          (map (\<lambda>c. if col_name c = n then c\<lparr>col_dtype := t, col_cells := cs\<rparr> else c) xs)
        = find (\<lambda>c. col_name c = n') xs" for xs :: "column list"
    using assms by (induction xs) auto
  have b: "find (\<lambda>c. col_name c = n') (xs @ [\<lparr>col_name = n, col_dtype = t, col_cells = cs\<rparr>])
        = find (\<lambda>c. col_name c = n') xs" for xs :: "column list"
    using assms by (induction xs) auto
  show ?thesis by (simp add: get_column_def set_column_def a b)
qed

lemma squeeze_after_space:
  "isspace E c \<Longrightarrow> squeeze_whitespace E (c # cs) = c # squeeze_whitespace E (dropWhile (isspace E) cs)"
  by (induction cs) auto

lemma squeeze_no_space:
  "\<not> isspace E c \<Longrightarrow> squeeze_whitespace E (c # cs) = c # squeeze_whitespace E cs"
  by (cases cs) auto

lemma sub_whitespace_runs_spec: "sub_whitespace_runs E s = spec_collapse E s"
proof (induction E s rule: sub_whitespace_runs.induct)
  case (1 E)
  then show ?case by (simp add: spec_collapse_def)
next
  case (2 E c cs)
  then show ?case
    by (cases "isspace E c") (simp_all add: spec_collapse_def squeeze_after_space squeeze_no_space)
qed

lemma address_char_kept: "address_char E = kept_address_char E"
  by (auto simp: fun_eq_iff address_char_def kept_address_char_def spec_address_char_def re_word_def)

lemma clean_address_cell:
  "invalidate_short m (clean_address_text E s) = spec_clean_cell (kept_address_char E) E m s"
  by (auto simp: invalidate_short_def clean_address_text_def spec_clean_cell_def Let_def
      sub_special_chars_def sub_whitespace_runs_spec address_char_kept)

lemma clean_address_column_cells:
  assumes "get_column (self_df T) col = Some c"
  shows "get_column (get_result (clean_address_column E col m T)) col
           = Some (c\<lparr>col_dtype := Object,
                     col_cells := map (\<lambda>x. invalidate_short m (clean_address_text E (astype_str E x)))
                                    (col_cells c)\<rparr>)"
  using assms get_column_set_column_same[OF assms]
  by (simp add: clean_address_column_def get_result_def Let_def log_append_def comp_def)

text \<open>
  C4 as stated fails on the underscore: the pattern keeps it, being a word character, so
  the cell ab_cd stays as it is with \<open>min_length = 5\<close>, where the specification's character
  list would leave the four characters abcd and mark the cell missing.
\<close>

theorem C4_clean_address_cell_counterexample:
  "cell_at (get_result (clean_address_column ascii_env ''stores'' 5 (DataTransformer underscore_store))) ''stores'' 0
     = Str (ascii ''ab_cd'')
   \<and> spec_clean_cell (spec_address_char ascii_env) ascii_env 5 (ascii ''ab_cd'') = PyNone"
  by (simp add: cell_at_def clean_address_column_def get_result_def DataTransformer_def
      underscore_store_def get_column_def set_column_def has_column_def column_names_def
      Let_def log_append_def notna_count_def notna_def isnull_def invalidate_short_def
      clean_address_text_def sub_special_chars_def address_char_def re_word_def isalnum_def
      isspace_def strip_def lstrip_def rstrip_def astype_str_def ascii_def ascii_env_def
      spec_clean_cell_def spec_collapse_def spec_address_char_def)

text \<open>
  C4, amended. In a frame that has the address column, \<open>clean_address_column\<close> turns every
  string cell into the string stripped of leading and trailing whitespace, with whitespace
  runs collapsed to one space, and then without the characters that are neither letters,
  digits, underscores, whitespace, commas, periods nor hyphens; a result shorter than
  \<open>min_length\<close> is replaced by the missing marker.
\<close>

theorem C4_clean_address_cell:
  "get_column (self_df T) address_col = Some c \<Longrightarrow> i < length (col_cells c) \<Longrightarrow>
   col_cells c ! i = Str s \<Longrightarrow>
   cell_at (get_result (clean_address_column E address_col min_length T)) address_col i
     = spec_clean_cell (kept_address_char E) E min_length s"
  by (simp add: cell_at_def clean_address_column_cells clean_address_cell astype_str_def)

theorem C4_clean_address_cell_witness:
  "get_column (self_df (DataTransformer padded_store)) ''stores''
     = Some \<lparr>col_name = ''stores'', col_dtype = Object,
             col_cells = [Str (ascii ''  Leclerc   Toulouse  ''), Str (ascii ''Super U'')]\<rparr>
   \<and> cell_at (get_result (clean_address_column ascii_env ''stores'' 10 (DataTransformer padded_store)))
        ''stores'' 0 = Str (ascii ''Leclerc Toulouse'')
   \<and> cell_at (get_result (clean_address_column ascii_env ''stores'' 10 (DataTransformer padded_store)))
        ''stores'' 1 = PyNone"
proof -
  have g: "get_column (self_df (DataTransformer padded_store)) ''stores''
     = Some \<lparr>col_name = ''stores'', col_dtype = Object,
             col_cells = [Str (ascii ''  Leclerc   Toulouse  ''), Str (ascii ''Super U'')]\<rparr>"
    by (simp add: DataTransformer_def padded_store_def get_column_def)
  have a: "spec_clean_cell (kept_address_char ascii_env) ascii_env 10 (ascii ''  Leclerc   Toulouse  '')
             = Str (ascii ''Leclerc Toulouse'')"
    by (simp add: spec_clean_cell_def spec_collapse_def kept_address_char_def
        spec_address_char_def isalnum_def isspace_def strip_def lstrip_def rstrip_def ascii_def)
  have b: "spec_clean_cell (kept_address_char ascii_env) ascii_env 10 (ascii ''Super U'') = PyNone"
    by (simp add: spec_clean_cell_def spec_collapse_def kept_address_char_def
        spec_address_char_def isalnum_def isspace_def strip_def lstrip_def rstrip_def ascii_def)
  show ?thesis
    using g a b
      C4_clean_address_cell [OF g, of 0 "ascii ''  Leclerc   Toulouse  ''" ascii_env 10]
      C4_clean_address_cell [OF g, of 1 "ascii ''Super U''" ascii_env 10]
    by simp
qed


lemma normalize_text_missing:
  "isnull c \<Longrightarrow> normalize_text E c = missing_text c"
  by (auto simp: isnull_def normalize_text_def missing_text_def astype_str_def ascii_def strip_def lstrip_def
      rstrip_def isspace_def nfkd_def encode_ascii_ignore_def lower_def lower_char_def)

lemma normalize_text_missing_text:
  "normalize_text E (missing_text c) = missing_text c"
  by (simp add: normalize_text_def missing_text_def astype_str_def ascii_def strip_def lstrip_def
      rstrip_def isspace_def nfkd_def encode_ascii_ignore_def lower_def lower_char_def)

lemma normalize_text_is_str: "is_str (normalize_text E c)"
  by (simp add: normalize_text_def is_str_def)

lemma normalize_column_other:
  "n \<noteq> col \<Longrightarrow> get_column (self_df (normalize_column E col T)) n = get_column (self_df T) n"
  by (simp add: normalize_column_def get_column_set_column_other split: option.splits)

lemma normalize_column_same:
  "get_column (self_df T) col = Some c \<Longrightarrow>
   get_column (self_df (normalize_column E col T)) col
     = Some (c\<lparr>col_dtype := Object, col_cells := map (normalize_text E) (col_cells c)\<rparr>)"
  by (simp add: normalize_column_def get_column_set_column_same)

text \<open>Once a column holds the text of a missing cell at row \<open>i\<close> and strings everywhere, it stays so.\<close>

lemma fold_normalize_keeps:
  assumes "get_column (self_df T) col = Some c'" "normalized_at c' i (missing_text x) n" "i < n"
  shows "\<exists>c''. get_column (self_df (fold (normalize_column E) names T)) col = Some c''
            \<and> normalized_at c'' i (missing_text x) n"
  using assms
proof (induction names arbitrary: T c')
  case Nil
  then show ?case by simp
next
  case (Cons a names)
  show ?case
  proof (cases "a = col")
    case True
    let ?c = "c'\<lparr>col_dtype := Object, col_cells := map (normalize_text E) (col_cells c')\<rparr>"
    have g: "get_column (self_df (normalize_column E a T)) col = Some ?c"
      using True Cons.prems(1) by (simp add: normalize_column_same)
    have "normalized_at ?c i (missing_text x) n"
      using Cons.prems(2,3)
      by (simp add: normalized_at_def normalize_text_missing_text list_all_iff normalize_text_is_str)
    from Cons.IH[OF g this Cons.prems(3)] show ?thesis by simp
  next
    case False
    then have g: "get_column (self_df (normalize_column E a T)) col = Some c'"
      using Cons.prems(1) by (simp add: normalize_column_other)
    from Cons.IH[OF g Cons.prems(2,3)] show ?thesis by simp
  qed
qed

lemma fold_normalize_missing:
  assumes "col \<in> set names" "get_column (self_df T) col = Some c" "i < length (col_cells c)"
    "isnull (col_cells c ! i)"
  shows "\<exists>c'. get_column (self_df (fold (normalize_column E) names T)) col = Some c'
            \<and> normalized_at c' i (missing_text (col_cells c ! i)) (length (col_cells c))"
  using assms
proof (induction names arbitrary: T)
  case Nil
  then show ?case by simp
next
  case (Cons a names)
  show ?case
  proof (cases "a = col")
    case True
    let ?c = "c\<lparr>col_dtype := Object, col_cells := map (normalize_text E) (col_cells c)\<rparr>"
    have g: "get_column (self_df (normalize_column E a T)) col = Some ?c"
      using True Cons.prems(2) by (simp add: normalize_column_same)
    have "normalized_at ?c i (missing_text (col_cells c ! i)) (length (col_cells c))"
      using Cons.prems(3,4)
      by (simp add: normalized_at_def normalize_text_missing list_all_iff normalize_text_is_str)
    from fold_normalize_keeps[OF g this Cons.prems(3)] show ?thesis by simp
  next
    case False
    then have g: "get_column (self_df (normalize_column E a T)) col = Some c"
      using Cons.prems(2) by (simp add: normalize_column_other)
    from False Cons.prems(1) have "col \<in> set names" by simp
    from Cons.IH[OF this g Cons.prems(3,4)] show ?thesis by simp
  qed
qed

lemma is_str_not_null: "list_all is_str cs \<Longrightarrow> null_count cs = 0"
  by (auto simp: null_count_def list_all_iff is_str_def isnull_def split: cell.splits)

text \<open>
  C5 as stated fails on a \<open>None\<close> cell: \<open>astype(str)\<close> gives it the text None, which \<open>lower\<close>
  turns into none, not nan.
\<close>

theorem C5_normalize_missing_counterexample:
  "isnull (cell_at brands_with_none ''brands'' 1)
   \<and> cell_at (get_result (normalize_text_columns ascii_env None (DataTransformer brands_with_none))) ''brands'' 1
       = Str (ascii ''none'')
   \<and> Str (ascii ''none'') \<noteq> Str (ascii ''nan'')"
  by (simp add: cell_at_def brands_with_none_def get_column_def isnull_def normalize_text_columns_def
      DataTransformer_def select_dtypes_def normalize_column_def set_column_def has_column_def
      column_names_def get_result_def log_append_def normalize_text_def astype_str_def ascii_def
      strip_def lstrip_def rstrip_def isspace_def nfkd_def encode_ascii_ignore_def lower_def
      lower_char_def Let_def)

text \<open>
  C5, amended. In every column that \<open>normalize_text_columns\<close> goes through, every missing cell
  becomes a string: nan for a \<open>NaN\<close> cell and none for a \<open>None\<close> cell. The column, which had a
  missing cell, has none afterwards: normalization does not preserve missingness.
\<close>

theorem C5_normalize_missing:
  assumes "col \<in> set (normalized_names (self_df T) cols)"
    and "get_column (self_df T) col = Some c"
    and "i < length (col_cells c)"
    and "isnull (col_cells c ! i)"
  shows "cell_at (get_result (normalize_text_columns E cols T)) col i
           = (if col_cells c ! i = NaN then Str (ascii ''nan'') else Str (ascii ''none''))
         \<and> column_null_count (get_result (normalize_text_columns E cols T)) col = 0
         \<and> column_null_count (self_df T) col > 0"
proof -
  let ?names = "normalized_names (self_df T) cols"
  from fold_normalize_missing[OF assms(1,2,3,4), of E] obtain c' where
    c': "get_column (self_df (fold (normalize_column E) ?names T)) col = Some c'"
      "normalized_at c' i (missing_text (col_cells c ! i)) (length (col_cells c))" by blast
  have r: "get_result (normalize_text_columns E cols T) = self_df (fold (normalize_column E) ?names T)"
    by (simp add: normalize_text_columns_def normalized_names_def get_result_def log_append_def Let_def)
  have "col_cells c ! i \<in> set (col_cells c)" using assms(3) by simp
  then have "filter isnull (col_cells c) \<noteq> []" using assms(4) by (auto simp: filter_empty_conv)
  then have "column_null_count (self_df T) col > 0"
    using assms(2) by (simp add: column_null_count_def null_count_def)
  then show ?thesis
    using c' by (simp add: r cell_at_def column_null_count_def normalized_at_def is_str_not_null missing_text_def)
qed

theorem C5_normalize_missing_witness:
  "''brands'' \<in> set (normalized_names (self_df (DataTransformer brands_with_none)) None)
   \<and> isnull (PyNone) \<and> isnull NaN
   \<and> cell_at (get_result (normalize_text_columns ascii_env None (DataTransformer brands_with_none)))
        ''brands'' 1 = Str (ascii ''none'')
   \<and> cell_at (get_result (normalize_text_columns ascii_env None (DataTransformer brands_with_none)))
        ''brands'' 2 = Str (ascii ''nan'')
   \<and> column_null_count (get_result (normalize_text_columns ascii_env None (DataTransformer brands_with_none)))
        ''brands'' = 0"
proof -
  let ?c = "\<lparr>col_name = ''brands'', col_dtype = Object,
             col_cells = [Str (ascii ''Lindt''), PyNone, NaN]\<rparr>"
  have n: "''brands'' \<in> set (normalized_names (self_df (DataTransformer brands_with_none)) None)"
    by (simp add: normalized_names_def DataTransformer_def brands_with_none_def select_dtypes_def)
  have g: "get_column (self_df (DataTransformer brands_with_none)) ''brands'' = Some ?c"
    by (simp add: DataTransformer_def brands_with_none_def get_column_def)
  have i1: "1 < length (col_cells ?c)" and i2: "2 < length (col_cells ?c)" by simp_all
  have m1: "isnull (col_cells ?c ! 1)" and m2: "isnull (col_cells ?c ! 2)"
    by (simp_all add: isnull_def)
  show ?thesis
    using n C5_normalize_missing [OF n g i1 m1, of ascii_env]
      C5_normalize_missing [OF n g i2 m2, of ascii_env]
    by (simp add: isnull_def)
qed


subsection \<open>Selecting rows\<close>

lemma kept_indices_Cons:
  "kept_indices (b # bs) = (if b then [0] else []) @ map Suc (kept_indices bs)"
proof -
  have "[0..<length (b # bs)] = 0 # map Suc [0..<length bs]"
    by (simp add: upt_conv_Cons map_Suc_upt del: upt_Suc)
  then show ?thesis by (simp add: kept_indices_def filter_map comp_def)
qed

lemma select_cells_nth:
  "length keep = length cs \<Longrightarrow> select_cells keep cs = map (\<lambda>i. cs ! i) (kept_indices keep)"
proof (induction keep arbitrary: cs)
  case Nil
  then show ?case by (simp add: select_cells_def kept_indices_def)
next
  case (Cons b bs)
  then obtain c cs' where cs: "cs = c # cs'" by (cases cs) auto
  with Cons.prems have "length bs = length cs'" by simp
  from Cons.IH[OF this] have "select_cells bs cs' = map (\<lambda>i. cs' ! i) (kept_indices bs)" .
  then show ?case
    unfolding cs kept_indices_Cons by (simp add: select_cells_def comp_def)
qed

lemma length_kept_indices: "length (kept_indices keep) = length (filter id keep)"
proof (induction keep)
  case Nil
  then show ?case by (simp add: kept_indices_def)
next
  case (Cons b bs)
  then show ?case unfolding kept_indices_Cons by simp
qed














lemma get_column_in_set: "get_column d n = Some c \<Longrightarrow> c \<in> set (columns d)"
  by (auto simp: get_column_def dest: find_Some_iff[THEN iffD1] nth_mem)




lemma quantile_mono:
  assumes "0 \<le> p" "p \<le> q" "q \<le> 1" "quantile p cs = Num a" "quantile q cs = Num b"
  shows "a \<le> b"
proof -
  define vs where "vs = sort (present_values cs)"
  define n where "n = length vs"
  have n0: "n \<noteq> 0" using assms(4) by (auto simp: quantile_def Let_def vs_def n_def split: if_splits)
  have srt: "sorted vs" by (simp add: vs_def)
  define val where "val = (\<lambda>r::real. vs ! nat \<lfloor>real (n - 1) * r\<rfloor>
      + (vs ! min (nat \<lfloor>real (n - 1) * r\<rfloor> + 1) (n - 1) - vs ! nat \<lfloor>real (n - 1) * r\<rfloor>)
        * (real (n - 1) * r - real (nat \<lfloor>real (n - 1) * r\<rfloor>)))"
  have a: "a = val p" and b: "b = val q"
    using assms(4,5) n0 by (auto simp: quantile_def Let_def vs_def n_def val_def split: if_splits)
  define P where "P = real (n - 1) * p"
  define Q where "Q = real (n - 1) * q"
  have PQ: "0 \<le> P" "P \<le> Q" "Q \<le> real (n - 1)"
    using assms(1,2,3) by (auto simp: P_def Q_def mult_left_mono mult_left_le)
  define lp where "lp = nat \<lfloor>P\<rfloor>"
  define lq where "lq = nat \<lfloor>Q\<rfloor>"
  have lpq: "lp \<le> lq" using PQ by (simp add: lp_def lq_def floor_mono nat_mono)
  have lqn: "lq \<le> n - 1" using PQ(3) by (simp add: lq_def le_nat_floor nat_le_iff floor_le_iff; linarith)
  have fp: "0 \<le> P - real lp" "P - real lp < 1"
    using PQ(1) by (auto simp: lp_def; linarith)+
  have fq: "0 \<le> Q - real lq" "Q - real lq < 1"
    using PQ(1,2) by (auto simp: lq_def; linarith)+
  define hp where "hp = min (lp + 1) (n - 1)"
  define hq where "hq = min (lq + 1) (n - 1)"
  have idx: "lp < n" "lq < n" "hp < n" "hq < n" "lp \<le> hp" "lq \<le> hq"
    using lpq lqn n0 by (auto simp: hp_def hq_def)
  have up: "vs ! lp \<le> vs ! hp" using srt idx by (simp add: sorted_nth_mono n_def)
  have uq: "vs ! lq \<le> vs ! hq" using srt idx by (simp add: sorted_nth_mono n_def)
  have vp: "val p = vs ! lp + (vs ! hp - vs ! lp) * (P - real lp)"
    by (simp add: val_def P_def lp_def hp_def)
  have vq: "val q = vs ! lq + (vs ! hq - vs ! lq) * (Q - real lq)"
    by (simp add: val_def Q_def lq_def hq_def)
  show ?thesis
  proof (cases "lp = lq")
    case True
    then have "hp = hq" by (simp add: hp_def hq_def)
    moreover have "P - real lp \<le> Q - real lq" using True PQ(2) by simp
    ultimately have "(vs ! hp - vs ! lp) * (P - real lp) \<le> (vs ! hq - vs ! lq) * (Q - real lq)"
      using True up by (simp add: mult_left_mono)
    then show ?thesis using True by (simp add: a b vp vq)
  next
    case False
    then have "lp < lq" using lpq by simp
    then have "hp \<le> lq" using lqn by (simp add: hp_def)
    then have h: "vs ! hp \<le> vs ! lq" using srt idx by (simp add: sorted_nth_mono n_def)
    have "(vs ! hp - vs ! lp) * (P - real lp) \<le> (vs ! hp - vs ! lp) * 1"
      using up fp by (intro mult_left_mono) auto
    then have "val p \<le> vs ! hp" by (simp add: vp)
    moreover have "0 \<le> (vs ! hq - vs ! lq) * (Q - real lq)" using uq fq by simp
    then have "vs ! lq \<le> val q" by (simp add: vq)
    ultimately show ?thesis using h by (simp add: a b)
  qed
qed

subsection \<open>Outlier filtering\<close>

lemma get_column_select_rows:
  "get_column d n = Some c \<Longrightarrow>
   get_column (select_rows keep d) n = Some (c\<lparr>col_cells := select_cells keep (col_cells c)\<rparr>)"
proof -
  have "find (\<lambda>c. col_name c = n) xs = Some c \<Longrightarrow>
        find (\<lambda>c. col_name c = n) (map (\<lambda>c. c\<lparr>col_cells := select_cells keep (col_cells c)\<rparr>) xs)
          = Some (c\<lparr>col_cells := select_cells keep (col_cells c)\<rparr>)" for xs :: "column list"
    by (induction xs) auto
  then show "get_column d n = Some c \<Longrightarrow> ?thesis"
    by (simp add: get_column_def select_rows_def)
qed

lemma disjoint_filters_length:
  "(\<And>x. x \<in> set xs \<Longrightarrow> P x \<Longrightarrow> \<not> Q x) \<Longrightarrow>
   length (filter P xs) + length (filter Q xs) \<le> length xs"
  by (induction xs) auto

lemma select_cells_self: "select_cells (map keep cs) cs = filter keep cs"
  by (induction cs) (auto simp: select_cells_def)

lemma within_bounds_notna: "within_bounds lo hi x \<Longrightarrow> \<not> isnull x"
  by (cases x) (auto simp: within_bounds_def isnull_def)

lemma quantile_Num_present: "quantile p cs = Num q \<Longrightarrow> notna_count cs > 0"
proof -
  assume "quantile p cs = Num q"
  then have "present_values cs \<noteq> []"
    by (auto simp: quantile_def Let_def split: if_splits)
  then obtain x where x: "x \<in> set cs" "(case x of Num r \<Rightarrow> [r] | _ \<Rightarrow> []) \<noteq> []"
    by (auto simp: present_values_def)
  from x(2) have "notna x" by (cases x) (simp_all add: notna_def isnull_def)
  with x(1) show ?thesis by (auto simp: notna_count_def filter_empty_conv)
qed

lemma gap_q1: "quantile (1 / 4) [Num 1, Num 2, Num 3, NaN] = Num (3 / 2)"
  by (simp add: quantile_def present_values_def Let_def)

lemma gap_q3: "quantile (3 / 4) [Num 1, Num 2, Num 3, NaN] = Num (5 / 2)"
  by (simp add: quantile_def present_values_def Let_def)








text \<open>
  C8. For a numeric column whose IQR is not zero, the IQR method removes every row whose
  cell in that column is missing, although no missing cell lies outside the bounds: the mask
  is false at each such row, the filtered column has no missing cell left, and at least as
  many rows go as the column had missing cells.
\<close>

theorem C8_iqr_removes_missing_rows:
  assumes "wf_df d" "get_column d col = Some c" "col_dtype c = Numeric"
    and "quantile 0.25 (col_cells c) = Num Q1" "quantile 0.75 (col_cells c) = Num Q3"
    and "Q3 - Q1 \<noteq> 0"
  shows "\<exists>keep. filter_outliers_column ''iqr'' threshold col d = Inr (select_rows keep d)
           \<and> length keep = nrows d
           \<and> (\<forall>i < nrows d. isnull (col_cells c ! i) \<longrightarrow>
                 \<not> keep ! i
                 \<and> \<not> spec_outside (Q1 - threshold * (Q3 - Q1)) (Q3 + threshold * (Q3 - Q1))
                       (col_cells c ! i))
           \<and> column_null_count (select_rows keep d) col = 0
           \<and> nrows (select_rows keep d) + null_count (col_cells c) \<le> nrows d"
proof -
  let ?lo = "Q1 - threshold * (Q3 - Q1)" and ?hi = "Q3 + threshold * (Q3 - Q1)"
  let ?keep = "map (within_bounds ?lo ?hi) (col_cells c)"
  have "Q1 \<le> Q3" using quantile_mono[OF _ _ _ assms(4,5)] by simp
  then have pos: "Q3 - Q1 > 0" using assms(6) by simp
  have present: "notna_count (col_cells c) > 0" using assms(4) by (rule quantile_Num_present)
  have len: "length (col_cells c) = nrows d"
    using assms(1) get_column_in_set[OF assms(2)] by (auto simp: wf_df_def list_all_iff wf_column_def)
  have run: "filter_outliers_column ''iqr'' threshold col d = Inr (select_rows ?keep d)"
    using assms(2,3,4,5) pos present by (simp add: filter_outliers_column_def Let_def)
  have miss: "\<not> ?keep ! i \<and> \<not> spec_outside ?lo ?hi (col_cells c ! i)"
    if "i < nrows d" "isnull (col_cells c ! i)" for i
    using that len by (auto simp: isnull_def within_bounds_def spec_outside_def)
  have "list_all (\<lambda>x. \<not> isnull x) (select_cells ?keep (col_cells c))"
    by (auto simp: select_cells_self list_all_iff within_bounds_notna)
  then have nulls: "column_null_count (select_rows ?keep d) col = 0"
    by (simp add: column_null_count_def get_column_select_rows[OF assms(2)] null_count_def
        list_all_iff filter_empty_conv)
  have "length (filter (within_bounds ?lo ?hi) (col_cells c)) + length (filter isnull (col_cells c))
          \<le> length (col_cells c)"
    by (rule disjoint_filters_length) (simp add: within_bounds_notna)
  then have cnt: "nrows (select_rows ?keep d) + null_count (col_cells c) \<le> nrows d"
    by (simp add: select_rows_def null_count_def len filter_map comp_def)
  show ?thesis
    using run len miss nulls cnt by (intro exI[of _ ?keep]) simp
qed

theorem C8_iqr_removes_missing_rows_witness:
  "wf_df gap_frame
   \<and> get_column gap_frame ''x'' = Some \<lparr>col_name = ''x'', col_dtype = Numeric, col_cells = [Num 1, Num 2, Num 3, NaN]\<rparr>
   \<and> quantile 0.25 [Num 1, Num 2, Num 3, NaN] = Num 1.5
   \<and> quantile 0.75 [Num 1, Num 2, Num 3, NaN] = Num 2.5
   \<and> isnull ([Num 1, Num 2, Num 3, NaN] ! 3)
   \<and> (\<exists>keep. filter_outliers_column ''iqr'' 1.5 ''x'' gap_frame = Inr (select_rows keep gap_frame)
          \<and> \<not> keep ! 3
          \<and> column_null_count (select_rows keep gap_frame) ''x'' = 0
          \<and> nrows (select_rows keep gap_frame) + 1 \<le> 4)"
proof -
  let ?c = "\<lparr>col_name = ''x'', col_dtype = Numeric, col_cells = [Num 1, Num 2, Num 3, NaN]\<rparr>"
  have w: "wf_df gap_frame"
    by (simp add: wf_df_def gap_frame_def wf_column_def numeric_cell_def column_names_def)
  have g: "get_column gap_frame ''x'' = Some ?c"
    by (simp add: gap_frame_def get_column_def)
  have t: "col_dtype ?c = Numeric" by simp
  have q1: "quantile 0.25 (col_cells ?c) = Num 1.5" using gap_q1 by simp
  have q3: "quantile 0.75 (col_cells ?c) = Num 2.5" using gap_q3 by simp
  have nz: "(2.5::real) - 1.5 \<noteq> 0" by simp
  have nr: "nrows gap_frame = 4" by (simp add: gap_frame_def)
  have nc: "null_count [Num 1, Num 2, Num 3, NaN] = 1" by (simp add: null_count_def isnull_def)
  from C8_iqr_removes_missing_rows [OF w g t q1 q3 nz, of "1.5"]
  obtain keep where k: "filter_outliers_column ''iqr'' 1.5 ''x'' gap_frame = Inr (select_rows keep gap_frame)"
    "\<forall>i<nrows gap_frame. isnull (col_cells ?c ! i) \<longrightarrow> \<not> keep ! i"
    "column_null_count (select_rows keep gap_frame) ''x'' = 0"
    "nrows (select_rows keep gap_frame) + null_count (col_cells ?c) \<le> nrows gap_frame"
    by auto
  from k(2) have "\<not> keep ! 3" by (simp add: nr isnull_def)
  then show ?thesis
    using w g gap_q1 gap_q3 k(1,3,4) nr nc
    by (auto simp: isnull_def)
qed
section \<open>The cleaning pass: theorems\<close>

subsection \<open>Evaluating the pass\<close>

lemmas pass_eval =
  cleaning_pass_def remove_duplicates_def DataTransformer_def
  dedup_default_subset_def has_column_def column_names_def drop_duplicates_def df_empty_def
  duplicated_def row_keys_def select_rows_def select_cells_def upt_rec
  handle_missing_values_def select_dtypes_def impute_text_column_def impute_numeric_column_def
  numeric_fill_value_def series_median_def present_values_def fillna_def get_column_def
  null_count_def isnull_def normalize_text_columns_def normalize_column_def set_column_def
  log_append_def normalize_text_def astype_str_def strip_def lstrip_def rstrip_def
  isspace_def nfkd_def encode_ascii_ignore_def lower_def lower_char_def ascii_def
  ascii_env_def Let_def

text \<open>
  C3 as stated fails. The codes A and a are distinct rows before normalization and equal
  after it: the second pass removes one of them and logs the deduplication. A name that
  starts with a character outside ASCII followed by a space comes out of the first pass with
  a leading space, which the second pass strips. And every pass logs the normalization.
\<close>

theorem C3_second_pass_counterexample:
  "cleaning_pass ascii_env ''median'' (ascii ''unknown'') case_codes
     = Inr \<lparr>self_df = lowered_codes, transformations_applied = [Normalisation_texte 1]\<rparr>
   \<and> cleaning_pass ascii_env ''median'' (ascii ''unknown'') lowered_codes
     = Inr \<lparr>self_df = \<lparr>nrows = 1, columns =
               [\<lparr>col_name = ''code'', col_dtype = Object, col_cells = [Str (ascii ''a'')]\<rparr>]\<rparr>,
            transformations_applied = [Doublons_supprimes 1, Normalisation_texte 1]\<rparr>
   \<and> cleaning_pass ascii_env ''median'' (ascii ''unknown'') euro_name
     = Inr \<lparr>self_df = space_name, transformations_applied = [Normalisation_texte 1]\<rparr>
   \<and> cleaning_pass ascii_env ''median'' (ascii ''unknown'') space_name
     = Inr \<lparr>self_df = \<lparr>nrows = 1, columns =
               [\<lparr>col_name = ''name'', col_dtype = Object, col_cells = [Str (ascii ''a'')]\<rparr>]\<rparr>,
            transformations_applied = [Normalisation_texte 1]\<rparr>"
  by (simp add: pass_eval case_codes_def lowered_codes_def euro_name_def space_name_def)

lemma column_names_map_columns:
  "(\<And>c. col_name (f c) = col_name c) \<Longrightarrow> column_names (map_columns f d) = column_names d"
  by (simp add: column_names_def map_columns_def comp_def)

lemma map_columns_id: "(\<And>c. c \<in> set (columns d) \<Longrightarrow> f c = c) \<Longrightarrow> map_columns f d = d"
  by (simp add: map_columns_def map_idI)

lemma map_columns_cong:
  "(\<And>c. c \<in> set (columns d) \<Longrightarrow> f c = g c) \<Longrightarrow> map_columns f d = map_columns g d"
  by (simp add: map_columns_def)

lemma map_columns_comp: "map_columns f (map_columns g d) = map_columns (f \<circ> g) d"
  by (simp add: map_columns_def)

lemma column_eqI:
  "col_name a = col_name b \<Longrightarrow> col_dtype a = col_dtype b \<Longrightarrow> col_cells a = col_cells b \<Longrightarrow>
   a = (b :: column)"
  by (cases a, cases b) simp

lemma frame_step_map:
  assumes "distinct (column_names d)" "\<And>c. col_name (G c) = col_name c"
  shows "frame_step G n d = map_columns (\<lambda>x. if col_name x = n then G x else x) d"
proof (cases "get_column d n")
  case None
  then have "\<forall>x \<in> set (columns d). col_name x \<noteq> n"
    by (auto simp: get_column_None_iff has_column_def column_names_def)
  then have "map_columns (\<lambda>x. if col_name x = n then G x else x) d = d"
    by (intro map_columns_id) simp
  with None show ?thesis by (simp add: frame_step_def)
next
  case (Some c)
  then have h: "has_column d n" using get_column_None_iff[of d n] by auto
  have "(if col_name x = n then x\<lparr>col_dtype := col_dtype (G c), col_cells := col_cells (G c)\<rparr> else x)
          = (if col_name x = n then G x else x)" if "x \<in> set (columns d)" for x
  proof (cases "col_name x = n")
    case True
    with that Some have "x = c" using get_column_Some_iff[OF assms(1), of n c]
      by (metis get_column_Some_iff[OF assms(1)] option.inject)
    then show ?thesis using True by (auto intro: column_eqI simp: assms(2))
  next
    case False
    then show ?thesis by simp
  qed
  then show ?thesis
    using Some h by (simp add: frame_step_def set_column_def map_columns_def)
qed

lemma column_names_frame_step:
  assumes "distinct (column_names d)" "\<And>c. col_name (G c) = col_name c"
  shows "column_names (frame_step G n d) = column_names d"
  unfolding frame_step_map[OF assms]
  by (rule column_names_map_columns) (simp add: assms(2))

lemma fold_frame_step:
  assumes "\<And>c. col_name (G c) = col_name c"
  shows "distinct (column_names d) \<Longrightarrow> distinct names \<Longrightarrow>
         fold (frame_step G) names d = map_columns (\<lambda>x. if col_name x \<in> set names then G x else x) d"
proof (induction names arbitrary: d)
  case Nil
  then show ?case by (simp add: map_columns_def)
next
  case (Cons n names)
  let ?d = "frame_step G n d"
  have dn: "distinct (column_names ?d)"
    using Cons.prems(1) by (simp add: column_names_frame_step assms)
  have "fold (frame_step G) (n # names) d = fold (frame_step G) names ?d" by simp
  also have "\<dots> = map_columns (\<lambda>x. if col_name x \<in> set names then G x else x) ?d"
    using Cons.IH[OF dn] Cons.prems(2) by simp
  also have "\<dots> = map_columns ((\<lambda>x. if col_name x \<in> set names then G x else x)
                        \<circ> (\<lambda>x. if col_name x = n then G x else x)) d"
    by (simp add: frame_step_map[OF Cons.prems(1) assms] map_columns_comp)
  also have "\<dots> = map_columns (\<lambda>x. if col_name x \<in> set (n # names) then G x else x) d"
    using Cons.prems(2) by (intro map_columns_cong) (auto simp: assms)
  finally show ?case .
qed

lemma distinct_select_dtypes: "distinct (column_names d) \<Longrightarrow> distinct (select_dtypes d t)"
  by (simp add: column_names_def select_dtypes_def distinct_map_filter)

lemma in_select_dtypes:
  assumes "distinct (column_names d)" "c \<in> set (columns d)"
  shows "col_name c \<in> set (select_dtypes d t) \<longleftrightarrow> col_dtype c = t"
proof
  assume "col_name c \<in> set (select_dtypes d t)"
  then obtain c' where c': "c' \<in> set (columns d)" "col_dtype c' = t" "col_name c' = col_name c"
    by (auto simp: select_dtypes_def)
  then have "c' = c"
    using assms by (auto simp: column_names_def distinct_map inj_on_def)
  with c' show "col_dtype c = t" by simp
next
  assume "col_dtype c = t"
  then show "col_name c \<in> set (select_dtypes d t)"
    using assms(2) by (auto simp: select_dtypes_def)
qed

lemma fold_frame_step_dtype:
  assumes "\<And>c. col_name (G c) = col_name c" "distinct (column_names d)"
  shows "fold (frame_step G) (select_dtypes d t) d
           = map_columns (\<lambda>x. if col_dtype x = t then G x else x) d"
  unfolding fold_frame_step[OF assms(1) assms(2) distinct_select_dtypes[OF assms(2)]]
  by (intro map_columns_cong) (simp add: in_select_dtypes[OF assms(2)])

lemma set_column_self:
  assumes "distinct (column_names d)" "get_column d n = Some c"
  shows "set_column d n (col_dtype c) (col_cells c) = d"
proof -
  have "frame_step (\<lambda>x. x) n d = map_columns (\<lambda>x. if col_name x = n then x else x) d"
    by (rule frame_step_map[OF assms(1)]) simp
  then have "frame_step (\<lambda>x. x) n d = d" by (simp add: map_columns_def)
  then show ?thesis using assms(2) by (simp add: frame_step_def)
qed

lemma impute_numeric_col_name [simp]: "col_name (impute_numeric_col ns c) = col_name c"
  by (simp add: impute_numeric_col_def split: option.splits)

lemma impute_numeric_col_dtype [simp]: "col_dtype (impute_numeric_col ns c) = col_dtype c"
  by (simp add: impute_numeric_col_def split: option.splits)

lemma impute_text_col_name [simp]: "col_name (impute_text_col ts c) = col_name c"
  by (simp add: impute_text_col_def)

lemma impute_text_col_dtype [simp]: "col_dtype (impute_text_col ts c) = col_dtype c"
  by (simp add: impute_text_col_def)

lemma normalize_col_name [simp]: "col_name (normalize_col E c) = col_name c"
  by (simp add: normalize_col_def)

lemma pass_col_name [simp]: "col_name (pass_col E ns ts c) = col_name c"
  by (simp add: pass_col_def split: dtype.splits)

lemma impute_numeric_column_frame:
  assumes "distinct (column_names (self_df T))"
  shows "self_df (impute_numeric_column ns col T) = frame_step (impute_numeric_col ns) col (self_df T)"
proof (cases "get_column (self_df T) col")
  case None
  then show ?thesis by (simp add: impute_numeric_column_def frame_step_def)
next
  case (Some c)
  note self = set_column_self[OF assms Some]
  show ?thesis
    using Some self
    by (auto simp: impute_numeric_column_def frame_step_def impute_numeric_col_def Let_def
        log_append_def split: option.splits)
qed

lemma impute_text_column_frame:
  assumes "distinct (column_names (self_df T))"
  shows "self_df (impute_text_column ts col T) = frame_step (impute_text_col ts) col (self_df T)"
proof (cases "get_column (self_df T) col")
  case None
  then show ?thesis by (simp add: impute_text_column_def frame_step_def)
next
  case (Some c)
  note self = set_column_self[OF assms Some]
  show ?thesis
    using Some self
    by (auto simp: impute_text_column_def frame_step_def impute_text_col_def Let_def log_append_def)
qed

lemma normalize_column_frame:
  "self_df (normalize_column E col T) = frame_step (normalize_col E) col (self_df T)"
  by (simp add: normalize_column_def frame_step_def normalize_col_def split: option.splits)

lemma fold_frame:
  assumes "\<And>n T. distinct (column_names (self_df T)) \<Longrightarrow> self_df (op n T) = frame_step G n (self_df T)"
    and "\<And>c. col_name (G c) = col_name c"
  shows "distinct (column_names (self_df T)) \<Longrightarrow>
         self_df (fold op names T) = fold (frame_step G) names (self_df T)"
proof (induction names arbitrary: T)
  case Nil
  then show ?case by simp
next
  case (Cons n names)
  have "distinct (column_names (self_df (op n T)))"
    using Cons.prems by (simp add: assms(1) column_names_frame_step assms(2))
  from Cons.IH[OF this] show ?case using Cons.prems by (simp add: assms(1))
qed

lemma handle_missing_values_frame:
  assumes "distinct (column_names (self_df T))"
  shows "self_df (handle_missing_values ns ts T) = map_columns (impute_col ns ts) (self_df T)"
proof -
  let ?T1 = "fold (impute_numeric_column ns) (select_dtypes (self_df T) Numeric) T"
  have f1: "self_df ?T1
              = map_columns (\<lambda>x. if col_dtype x = Numeric then impute_numeric_col ns x else x) (self_df T)"
    using fold_frame[of "impute_numeric_column ns" "impute_numeric_col ns" T, OF impute_numeric_column_frame _ assms]
    by (simp add: fold_frame_step_dtype[OF _ assms])
  have d1: "distinct (column_names (self_df ?T1))"
    unfolding f1 using assms by (subst column_names_map_columns) simp_all
  have "self_df (handle_missing_values ns ts T)
          = map_columns (\<lambda>x. if col_dtype x = Object then impute_text_col ts x else x) (self_df ?T1)"
    using fold_frame[of "impute_text_column ts" "impute_text_col ts" ?T1, OF impute_text_column_frame _ d1]
    by (simp add: handle_missing_values_def Let_def fold_frame_step_dtype[OF _ d1])
  also have "\<dots> = map_columns (impute_col ns ts) (self_df T)"
    unfolding f1 map_columns_comp
    by (intro map_columns_cong) (auto simp: impute_col_def split: dtype.splits)
  finally show ?thesis .
qed

lemma normalize_text_columns_frame:
  assumes "distinct (column_names (self_df T))"
  shows "self_df (normalize_text_columns E None T)
           = map_columns (\<lambda>x. if col_dtype x = Object then normalize_col E x else x) (self_df T)"
  using fold_frame[of "normalize_column E" "normalize_col E" T, OF normalize_column_frame _ assms]
  by (simp add: normalize_text_columns_def log_append_def Let_def fold_frame_step_dtype[OF _ assms])

lemma impute_col_name [simp]: "col_name (impute_col ns ts c) = col_name c"
  by (simp add: impute_col_def split: dtype.splits)

lemma pass_frame:
  assumes "distinct (column_names (self_df T))"
  shows "self_df (normalize_text_columns E None (handle_missing_values ns ts T))
           = map_columns (pass_col E ns ts) (self_df T)"
proof -
  have d: "distinct (column_names (self_df (handle_missing_values ns ts T)))"
    unfolding handle_missing_values_frame[OF assms]
    using assms by (subst column_names_map_columns) simp_all
  show ?thesis
    unfolding normalize_text_columns_frame[OF d] handle_missing_values_frame[OF assms] map_columns_comp
    by (intro map_columns_cong) (auto simp: pass_col_def impute_col_def split: dtype.splits)
qed

lemma wf_df_aligned: "wf_df d \<Longrightarrow> aligned d"
  by (auto simp: wf_df_def aligned_def list_all_iff wf_column_def)

subsection \<open>Logs\<close>

lemma fold_normalize_log:
  "transformations_applied (fold (normalize_column E) names T) = transformations_applied T"
  by (induction names arbitrary: T) (auto simp: normalize_column_def split: option.splits)

lemma normalize_text_columns_log:
  "transformations_applied (normalize_text_columns E cols T)
     = transformations_applied T @ [Normalisation_texte (length (normalized_names (self_df T) cols))]"
  by (simp add: normalize_text_columns_def normalized_names_def log_append_def Let_def fold_normalize_log)

lemma fold_no_doublons:
  assumes "\<And>n T. \<not> list_ex doublons_entry (transformations_applied T)
                \<Longrightarrow> \<not> list_ex doublons_entry (transformations_applied (op n T))"
  shows "\<not> list_ex doublons_entry (transformations_applied T)
         \<Longrightarrow> \<not> list_ex doublons_entry (transformations_applied (fold op names T))"
  by (induction names arbitrary: T) (auto simp: assms)

lemma impute_numeric_no_doublons:
  "\<not> list_ex doublons_entry (transformations_applied T)
   \<Longrightarrow> \<not> list_ex doublons_entry (transformations_applied (impute_numeric_column ns n T))"
  by (auto simp: impute_numeric_column_def log_append_def doublons_entry_def Let_def
      split: option.splits)

lemma impute_text_no_doublons:
  "\<not> list_ex doublons_entry (transformations_applied T)
   \<Longrightarrow> \<not> list_ex doublons_entry (transformations_applied (impute_text_column ts n T))"
  by (auto simp: impute_text_column_def log_append_def doublons_entry_def Let_def
      split: option.splits)

lemma handle_missing_no_doublons:
  "\<not> list_ex doublons_entry (transformations_applied T)
   \<Longrightarrow> \<not> list_ex doublons_entry (transformations_applied (handle_missing_values ns ts T))"
  unfolding handle_missing_values_def Let_def
  by (intro fold_no_doublons impute_text_no_doublons impute_numeric_no_doublons)

subsection \<open>Deduplication\<close>

lemma dedup_default_subset_names:
  "dedup_default_subset d
     = (if ''code'' \<in> set (column_names d) then Inr [''code'']
        else case column_names d of [] \<Rightarrow> Inl IndexError | n # _ \<Rightarrow> Inr [n])"
  by (cases "columns d") (simp_all add: dedup_default_subset_def has_column_def column_names_def)

lemma dedup_default_subset_ok:
  "dedup_default_subset d = Inr ks \<Longrightarrow> ks \<noteq> [] \<and> set ks \<subseteq> set (column_names d)"
  by (auto simp: dedup_default_subset_names split: if_splits list.splits)

lemma length_select_cells:
  "length keep = length cs \<Longrightarrow> length (select_cells keep cs) = length (filter id keep)"
  by (simp add: select_cells_nth length_kept_indices)

lemma column_names_select_rows: "column_names (select_rows keep d) = column_names d"
  by (simp add: column_names_def select_rows_def comp_def)

lemma aligned_select_rows:
  "aligned d \<Longrightarrow> length keep = nrows d \<Longrightarrow> aligned (select_rows keep d)"
  unfolding aligned_def column_names_select_rows
  by (auto simp: select_rows_def list_all_iff length_select_cells)

lemma select_cells_all: "select_cells (replicate (length cs) True) cs = cs"
  by (induction cs) (simp_all add: select_cells_def)

lemma select_rows_all:
  assumes "aligned d"
  shows "select_rows (replicate (nrows d) True) d = d"
proof -
  have "map (\<lambda>c. c\<lparr>col_cells := select_cells (replicate (nrows d) True) (col_cells c)\<rparr>) (columns d)
          = columns d"
  proof (rule map_idI)
    fix c assume "c \<in> set (columns d)"
    then have "length (col_cells c) = nrows d" using assms by (auto simp: aligned_def list_all_iff)
    then have "select_cells (replicate (nrows d) True) (col_cells c) = col_cells c"
      using select_cells_all[of "col_cells c"] by simp
    then show "c\<lparr>col_cells := select_cells (replicate (nrows d) True) (col_cells c)\<rparr> = c" by simp
  qed
  then show ?thesis by (simp add: select_rows_def)
qed

lemma duplicated_count:
  assumes "distinct (column_names d)" "set ks \<subseteq> set (column_names d)"
  shows "length (filter id (duplicated_from []
            (row_keys (nrows d) (filter (\<lambda>c. col_name c \<in> set ks) (columns d)))))
         = spec_duplicate_count d ks"
proof -
  let ?K = "row_keys (nrows d) (filter (\<lambda>c. col_name c \<in> set ks) (columns d))"
  have len: "length ?K = nrows d" by (simp add: row_keys_def)
  have "{i. i < length ?K \<and> (\<exists>j<i. ?K ! j = ?K ! i)} = {i. i < nrows d \<and> repeats_earlier_row d ks i}"
    unfolding len repeats_earlier_row_def
    using row_keys_eq_iff[OF assms(1) assms(2)] by auto
  then show ?thesis by (simp add: count_duplicated_from spec_duplicate_count_def)
qed

lemma drop_duplicates_nothing:
  assumes "aligned d" "ks \<noteq> []" "set ks \<subseteq> set (column_names d)" "spec_duplicate_count d ks = 0"
  shows "drop_duplicates d ks = Inr d"
proof (cases "df_empty d")
  case True
  then show ?thesis by (simp add: drop_duplicates_def)
next
  case False
  let ?m = "duplicated_from [] (row_keys (nrows d) (filter (\<lambda>c. col_name c \<in> set ks) (columns d)))"
  have dist: "distinct (column_names d)" using assms(1) by (simp add: aligned_def)
  have "length (filter id ?m) = 0" using duplicated_count[OF dist assms(3)] assms(4) by simp
  then have "\<forall>x \<in> set ?m. \<not> x" by (auto simp: filter_empty_conv)
  moreover have "length ?m = nrows d" by (simp add: length_duplicated_from row_keys_def)
  ultimately have "map Not ?m = replicate (nrows d) True"
    by (intro replicate_eqI) auto
  then show ?thesis
    using False assms(2,3) select_rows_all[OF assms(1)]
    by (simp add: drop_duplicates_def duplicated_def)
qed

lemma drop_duplicates_aligned:
  assumes "aligned d" "drop_duplicates d ks = Inr d'"
  shows "aligned d' \<and> column_names d' = column_names d"
proof (cases "df_empty d")
  case True
  then show ?thesis using assms by (simp add: drop_duplicates_def)
next
  case False
  then obtain m where m: "duplicated d ks = Inr m" "d' = select_rows (map Not m) d"
    using assms(2) by (auto simp: drop_duplicates_def split: sum.splits)
  then have "length m = nrows d"
    using False by (auto simp: duplicated_def length_duplicated_from row_keys_def split: if_splits)
  then show ?thesis
    using m(2) assms(1) by (simp add: aligned_select_rows column_names_select_rows)
qed

lemma remove_duplicates_result:
  assumes "remove_duplicates None (DataTransformer d) = Inr T"
  shows "\<exists>ks. dedup_default_subset d = Inr ks \<and> drop_duplicates d ks = Inr (self_df T)"
  using assms
  by (auto simp: remove_duplicates_def DataTransformer_def Let_def log_append_def
      split: sum.splits if_splits)

lemma remove_duplicates_nothing:
  assumes "dedup_default_subset d = Inr ks" "drop_duplicates d ks = Inr d"
  shows "remove_duplicates None (DataTransformer d) = Inr (DataTransformer d)"
  using assms by (simp add: remove_duplicates_def DataTransformer_def Let_def)

lemma remove_duplicates_succeeds:
  assumes "dedup_default_subset d = Inr ks"
  shows "\<exists>T. remove_duplicates None (DataTransformer d) = Inr T"
proof -
  from dedup_default_subset_ok[OF assms] have "ks \<noteq> []" "set ks \<subseteq> set (column_names d)" by simp_all
  then have "\<exists>d'. drop_duplicates d ks = Inr d'"
    by (simp add: drop_duplicates_def duplicated_def)
  then show ?thesis using assms
    by (auto simp: remove_duplicates_def DataTransformer_def Let_def)
qed

subsection \<open>A second imputation and a second normalization of a column\<close>

lemma present_values_fillna_NaN: "present_values (fillna NaN cs) = present_values cs"
proof (induction cs)
  case Nil
  then show ?case by (simp add: fillna_def present_values_def)
next
  case (Cons c cs)
  then show ?case by (cases c) (simp_all add: fillna_def present_values_def isnull_def)
qed

lemma numeric_fill_value_fillna_NaN:
  "numeric_fill_value ns (fillna NaN cs) = numeric_fill_value ns cs"
  by (simp add: numeric_fill_value_def series_median_def series_mean_def present_values_fillna_NaN)

lemma fillna_twice: "fillna v (fillna v cs) = fillna v cs"
  by (simp add: fillna_def)

lemma null_count_fillna: "\<not> isnull v \<Longrightarrow> null_count (fillna v cs) = 0"
  by (simp add: null_count_def fillna_def filter_empty_conv)

lemma numeric_fill_value_kind:
  "numeric_fill_value ns cs = Some v \<Longrightarrow> v = NaN \<or> \<not> isnull v"
  by (auto simp: numeric_fill_value_def series_median_def series_mean_def isnull_def Let_def
      split: if_splits)

lemma impute_numeric_col_twice:
  "impute_numeric_col ns (impute_numeric_col ns c) = impute_numeric_col ns c"
proof (cases "null_count (col_cells c) > 0")
  case False
  then show ?thesis by (simp add: impute_numeric_col_def)
next
  case True
  show ?thesis
  proof (cases "numeric_fill_value ns (col_cells c)")
    case None
    with True show ?thesis by (simp add: impute_numeric_col_def)
  next
    case (Some v)
    from numeric_fill_value_kind[OF Some] show ?thesis
    proof
      assume "v = NaN"
      with True Some show ?thesis
        by (simp add: impute_numeric_col_def numeric_fill_value_fillna_NaN fillna_twice)
    next
      assume "\<not> isnull v"
      with True Some show ?thesis
        by (simp add: impute_numeric_col_def null_count_fillna)
    qed
  qed
qed

lemma lower_char_ascii: "c < 128 \<Longrightarrow> lower_char c < 128 \<and> lower_char (lower_char c) = lower_char c"
  by (auto simp: lower_char_def)

lemma normalize_text_ascii_lower: "\<exists>s. normalize_text E x = Str s \<and> ascii_lower s"
  by (auto simp: normalize_text_def ascii_lower_def lower_def encode_ascii_ignore_def lower_char_ascii)

lemma nfkd_ascii: "\<forall>c \<in> set s. c < 128 \<Longrightarrow> nfkd E s = s"
  by (induction s) (simp_all add: nfkd_def)

lemma normalize_text_fixed:
  assumes "ascii_lower s" "strip E s = s"
  shows "normalize_text E (Str s) = Str s"
proof -
  have a: "\<forall>c \<in> set s. c < 128" and l: "\<forall>c \<in> set s. lower_char c = c"
    using assms(1) by (simp_all add: ascii_lower_def)
  have "nfkd E s = s" using a by (rule nfkd_ascii)
  moreover have "encode_ascii_ignore s = s" using a by (simp add: encode_ascii_ignore_def)
  moreover have "lower s = s" using l by (simp add: lower_def map_idI)
  ultimately show ?thesis using assms(2) by (simp add: normalize_text_def astype_str_def)
qed

lemma normalized_col_no_nulls: "null_count (col_cells (normalize_col E c)) = 0"
  by (auto simp: normalize_col_def null_count_def filter_empty_conv normalize_text_def isnull_def)

lemma pass_col_dtype [simp]: "col_dtype (pass_col E ns ts c) = col_dtype c"
  by (cases "col_dtype c") (simp_all add: pass_col_def normalize_col_def)

lemma pass_col_twice:
  assumes "col_dtype c = Object \<longrightarrow>
             (\<forall>s. Str s \<in> set (col_cells (pass_col E ns ts c)) \<longrightarrow> strip E s = s)"
  shows "pass_col E ns ts (pass_col E ns ts c) = pass_col E ns ts c"
proof (cases "col_dtype c")
  case Numeric
  then show ?thesis by (simp add: pass_col_def impute_numeric_col_twice)
next
  case Boolean
  then show ?thesis by (simp add: pass_col_def)
next
  case Object
  let ?c1 = "pass_col E ns ts c"
  have c1: "?c1 = normalize_col E (impute_text_col ts c)" using Object by (simp add: pass_col_def)
  have t1: "col_dtype ?c1 = Object" using Object by simp
  have imp: "impute_text_col ts ?c1 = ?c1"
    unfolding c1 by (simp add: impute_text_col_def normalized_col_no_nulls)
  have fixed: "normalize_text E x = x" if "x \<in> set (col_cells ?c1)" for x
  proof -
    from that obtain y where "x = normalize_text E y" by (auto simp: c1 normalize_col_def)
    with normalize_text_ascii_lower[of E y] obtain s where s: "x = Str s" "ascii_lower s" by auto
    with that assms Object have "strip E s = s" by simp
    with s show ?thesis by (simp add: normalize_text_fixed)
  qed
  have "normalize_col E ?c1 = ?c1"
    using fixed t1 by (intro column_eqI) (simp_all add: normalize_col_def map_idI)
  then show ?thesis
    using t1 imp by (simp add: pass_col_def[of E ns ts ?c1])
qed

lemma pass_col_length [simp]: "length (col_cells (pass_col E ns ts c)) = length (col_cells c)"
  by (auto simp: pass_col_def normalize_col_def impute_text_col_def impute_numeric_col_def fillna_def
      split: dtype.splits option.splits)

lemma aligned_map_pass:
  assumes "aligned d"
  shows "aligned (map_columns (pass_col E ns ts) d)"
proof -
  have "column_names (map_columns (pass_col E ns ts) d) = column_names d"
    by (rule column_names_map_columns) simp
  moreover have "list_all (\<lambda>c. length (col_cells c) = nrows (map_columns (pass_col E ns ts) d))
                   (columns (map_columns (pass_col E ns ts) d))"
    using assms by (auto simp: aligned_def list_all_iff map_columns_def)
  ultimately show ?thesis using assms by (simp add: aligned_def)
qed

subsection \<open>The second pass\<close>

lemma cleaning_pass_frame:
  assumes "aligned d" "cleaning_pass E ns ts d = Inr T"
  shows "\<exists>ks d0. dedup_default_subset d = Inr ks \<and> drop_duplicates d ks = Inr d0
           \<and> get_result T = map_columns (pass_col E ns ts) d0
           \<and> aligned d0 \<and> column_names d0 = column_names d"
proof -
  from assms(2) obtain T0 where T0: "remove_duplicates None (DataTransformer d) = Inr T0"
    and T: "T = normalize_text_columns E None (handle_missing_values ns ts T0)"
    by (auto simp: cleaning_pass_def split: sum.splits)
  from remove_duplicates_result[OF T0] obtain ks where
    ks: "dedup_default_subset d = Inr ks" "drop_duplicates d ks = Inr (self_df T0)" by blast
  from drop_duplicates_aligned[OF assms(1) ks(2)]
  have al: "aligned (self_df T0)" "column_names (self_df T0) = column_names d" by simp_all
  then have "distinct (column_names (self_df T0))" by (simp add: aligned_def)
  from pass_frame[OF this] have "get_result T = map_columns (pass_col E ns ts) (self_df T0)"
    by (simp add: T get_result_def)
  with ks al show ?thesis by blast
qed

text \<open>
  C3, amended. On a well-formed frame on which the pass succeeds, a second pass on the
  output succeeds too, and its last log entry is that of the normalization, which logs the
  number of text columns whether or not it changed anything. When no row of the output
  repeats an earlier one under the default key and no string of its text columns has leading
  or trailing whitespace, the second pass returns the output unchanged and logs no
  deduplication.
\<close>

theorem C3_second_pass:
  assumes "wf_df d" "cleaning_pass E ns ts d = Inr T1"
  shows "\<exists>T2. cleaning_pass E ns ts (get_result T1) = Inr T2
           \<and> last (transformations_applied T2)
               = Normalisation_texte (length (select_dtypes (get_result T2) Object))
           \<and> (no_repeated_key (get_result T1) \<and> stripped_text E (get_result T1) \<longrightarrow>
                 get_result T2 = get_result T1
                 \<and> \<not> list_ex doublons_entry (transformations_applied T2))"
proof -
  let ?d1 = "get_result T1"
  let ?P = "pass_col E ns ts"
  from cleaning_pass_frame[OF wf_df_aligned[OF assms(1)] assms(2)] obtain ks d0 where
    p1: "dedup_default_subset d = Inr ks" "get_result T1 = map_columns ?P d0"
        "aligned d0" "column_names d0 = column_names d" by blast
  have al1: "aligned ?d1" unfolding p1(2) using p1(3) by (rule aligned_map_pass)
  have names1: "column_names ?d1 = column_names d"
    unfolding p1(2) using p1(4) by (simp add: column_names_map_columns)
  have "dedup_default_subset ?d1 = dedup_default_subset d"
    by (simp add: dedup_default_subset_names names1)
  then have ks1: "dedup_default_subset ?d1 = Inr ks"
    using p1(1) by simp
  from remove_duplicates_succeeds[OF ks1] obtain T0 where
    T0: "remove_duplicates None (DataTransformer ?d1) = Inr T0" by blast
  let ?T2 = "normalize_text_columns E None (handle_missing_values ns ts T0)"
  have run2: "cleaning_pass E ns ts ?d1 = Inr ?T2" using T0 by (simp add: cleaning_pass_def)
  from remove_duplicates_result[OF T0] obtain ks' where
    "dedup_default_subset ?d1 = Inr ks'" "drop_duplicates ?d1 ks' = Inr (self_df T0)" by blast
  then have drop: "drop_duplicates ?d1 ks = Inr (self_df T0)" using ks1 by simp
  from drop_duplicates_aligned[OF al1 drop] have al0: "aligned (self_df T0)" by simp
  then have dist0: "distinct (column_names (self_df T0))" by (simp add: aligned_def)
  have frame2: "get_result ?T2 = map_columns ?P (self_df T0)"
    using pass_frame[OF dist0] by (simp add: get_result_def)
  have dist_h: "distinct (column_names (self_df (handle_missing_values ns ts T0)))"
    unfolding handle_missing_values_frame[OF dist0]
    using dist0 by (subst column_names_map_columns) simp_all
  have dt: "select_dtypes (get_result ?T2) Object
              = select_dtypes (self_df (handle_missing_values ns ts T0)) Object"
    unfolding get_result_def normalize_text_columns_frame[OF dist_h]
    by (simp add: select_dtypes_def map_columns_def filter_map comp_def normalize_col_def
        cong: filter_cong)
  have lastlog: "last (transformations_applied ?T2)
                   = Normalisation_texte (length (select_dtypes (get_result ?T2) Object))"
    by (simp add: normalize_text_columns_log normalized_names_def dt)
  have stable: "get_result ?T2 = ?d1 \<and> \<not> list_ex doublons_entry (transformations_applied ?T2)"
    if h: "no_repeated_key ?d1 \<and> stripped_text E ?d1"
  proof -
    from h ks1 have "spec_duplicate_count ?d1 ks = 0" by (simp add: no_repeated_key_def)
    with dedup_default_subset_ok[OF ks1] have "drop_duplicates ?d1 ks = Inr ?d1"
      using al1 by (intro drop_duplicates_nothing) simp_all
    from remove_duplicates_nothing[OF ks1 this] T0 have T0eq: "T0 = DataTransformer ?d1" by simp
    have "map_columns ?P ?d1 = ?d1"
      unfolding p1(2) map_columns_comp
    proof (rule map_columns_cong)
      fix c assume c: "c \<in> set (columns d0)"
      have "?P c \<in> set (columns ?d1)" using c by (simp add: p1(2) map_columns_def)
      then have "col_dtype c = Object \<longrightarrow> (\<forall>s. Str s \<in> set (col_cells (?P c)) \<longrightarrow> strip E s = s)"
        using h by (auto simp: stripped_text_def)
      then show "(?P \<circ> ?P) c = ?P c" by (simp add: pass_col_twice)
    qed
    then have a: "get_result ?T2 = ?d1" using frame2 by (simp add: T0eq DataTransformer_def)
    have "\<not> list_ex doublons_entry (transformations_applied T0)"
      by (simp add: T0eq DataTransformer_def)
    then have "\<not> list_ex doublons_entry (transformations_applied (handle_missing_values ns ts T0))"
      by (rule handle_missing_no_doublons)
    then have b: "\<not> list_ex doublons_entry (transformations_applied ?T2)"
      by (simp add: normalize_text_columns_log doublons_entry_def)
    from a b show ?thesis by simp
  qed
  show ?thesis using run2 lastlog stable by blast
qed

theorem C3_second_pass_witness:
  "wf_df small_catalog
   \<and> cleaning_pass ascii_env ''median'' (ascii ''unknown'') small_catalog
       = Inr \<lparr>self_df = cleaned_catalog,
              transformations_applied =
                [Nulls_numeric ''energy_100g'' 1 (Num 500),
                 Nulls_text ''product_name'' 1 (ascii ''unknown''),
                 Normalisation_texte 2]\<rparr>
   \<and> no_repeated_key cleaned_catalog \<and> stripped_text ascii_env cleaned_catalog
   \<and> (\<exists>T2. cleaning_pass ascii_env ''median'' (ascii ''unknown'') cleaned_catalog = Inr T2
          \<and> get_result T2 = cleaned_catalog
          \<and> last (transformations_applied T2) = Normalisation_texte 2
          \<and> \<not> list_ex doublons_entry (transformations_applied T2))"
proof -
  let ?T1 = "\<lparr>self_df = cleaned_catalog,
              transformations_applied =
                [Nulls_numeric ''energy_100g'' 1 (Num 500),
                 Nulls_text ''product_name'' 1 (ascii ''unknown''),
                 Normalisation_texte 2]\<rparr>"
  have w: "wf_df small_catalog"
    by (simp add: wf_df_def small_catalog_def wf_column_def numeric_cell_def column_names_def)
  have p: "cleaning_pass ascii_env ''median'' (ascii ''unknown'') small_catalog = Inr ?T1"
    by (simp add: pass_eval small_catalog_def cleaned_catalog_def)
  have g: "get_result ?T1 = cleaned_catalog" by (simp add: get_result_def)
  have k: "dedup_default_subset cleaned_catalog = Inr [''code'']"
    by (simp add: dedup_default_subset_def has_column_def column_names_def cleaned_catalog_def)
  have "spec_duplicate_count cleaned_catalog [''code'']
          = length (filter id (duplicated_from []
              (row_keys (nrows cleaned_catalog)
                 (filter (\<lambda>c. col_name c \<in> set [''code'']) (columns cleaned_catalog)))))"
    by (rule duplicated_count[symmetric]) (simp_all add: column_names_def cleaned_catalog_def)
  also have "\<dots> = 0"
    by (simp add: cleaned_catalog_def row_keys_def upt_rec ascii_def)
  finally have n: "no_repeated_key cleaned_catalog" by (simp add: no_repeated_key_def k)
  have s: "stripped_text ascii_env cleaned_catalog"
    by (auto simp: stripped_text_def cleaned_catalog_def strip_def lstrip_def rstrip_def
        isspace_def ascii_def)
  have t: "select_dtypes cleaned_catalog Object = [''code'', ''product_name'']"
    by (simp add: select_dtypes_def cleaned_catalog_def)
  from C3_second_pass [OF w p, unfolded g] n s
  have "\<exists>T2. cleaning_pass ascii_env ''median'' (ascii ''unknown'') cleaned_catalog = Inr T2
          \<and> get_result T2 = cleaned_catalog
          \<and> last (transformations_applied T2) = Normalisation_texte 2
          \<and> \<not> list_ex doublons_entry (transformations_applied T2)"
    using t by auto
  with w p n s show ?thesis by simp
qed

section \<open>Object identity: theorems\<close>

lemma exec_shape:
  "exec E derive c w = w
   \<or> (\<exists>e. exec E derive c w = w\<lparr>raised := Some e\<rparr>)
   \<or> exec E derive c w
       = w\<lparr>heap := heap w @ [heap w ! self_ref w], returned := returned w @ [length (heap w)]\<rparr>
   \<or> (\<exists>d l. exec E derive c w = w\<lparr>heap := (heap w)[self_ref w := d], applied := l\<rparr>)
   \<or> (\<exists>d l. exec E derive c w
               = w\<lparr>heap := heap w @ [d], self_ref := length (heap w), applied := l\<rparr>)"
proof (cases "raised w")
  case (Some e)
  then show ?thesis by (simp add: exec_def)
next
  case None
  show ?thesis
  proof (cases "c = Get_result")
    case True
    with None show ?thesis by (simp add: exec_def alloc_def)
  next
    case False
    show ?thesis
    proof (cases "method_result E derive c
                   \<lparr>self_df = heap w ! self_ref w, transformations_applied = applied w\<rparr>")
      case (Inl e)
      with None False have "exec E derive c w = w\<lparr>raised := Some e\<rparr>" by (simp add: exec_def)
      then show ?thesis by blast
    next
      case (Inr T')
      show ?thesis
      proof (cases "assigns_in_place c")
        case True
        with None False Inr
        have "exec E derive c w
                = w\<lparr>heap := (heap w)[self_ref w := self_df T'], applied := transformations_applied T'\<rparr>"
          by (simp add: exec_def assign_def)
        then show ?thesis by blast
      next
        case no: False
        with None False Inr
        have "exec E derive c w
                = w\<lparr>heap := heap w @ [self_df T'], self_ref := length (heap w),
                    applied := transformations_applied T'\<rparr>"
          by (simp add: exec_def alloc_def)
        then show ?thesis by blast
      qed
    qed
  qed
qed

lemma exec_cases:
  obtains (stop) "exec E derive c w = w"
  | (raise) e where "exec E derive c w = w\<lparr>raised := Some e\<rparr>"
  | (result) "exec E derive c w
       = w\<lparr>heap := heap w @ [heap w ! self_ref w], returned := returned w @ [length (heap w)]\<rparr>"
  | (inplace) d l where "exec E derive c w = w\<lparr>heap := (heap w)[self_ref w := d], applied := l\<rparr>"
  | (rebind) d l where "exec E derive c w
               = w\<lparr>heap := heap w @ [d], self_ref := length (heap w), applied := l\<rparr>"
  using exec_shape[of E derive c w] by blast

lemma exec_keeps:
  "r < length (heap w) \<Longrightarrow> r \<noteq> self_ref w \<Longrightarrow> heap (exec E derive c w) ! r = heap w ! r"
  by (cases rule: exec_cases[of E derive c w]) (auto simp: nth_append)

lemma exec_internal: "internal n0 w \<Longrightarrow> internal n0 (exec E derive c w)"
  by (cases rule: exec_cases[of E derive c w]) (auto simp: internal_def)

lemma exec_held: "held_by_caller n0 w r \<Longrightarrow> held_by_caller n0 (exec E derive c w) r"
  by (cases rule: exec_cases[of E derive c w]) (auto simp: held_by_caller_def)

lemma held_not_self:
  "internal n0 w \<Longrightarrow> held_by_caller n0 w r \<Longrightarrow> r \<noteq> self_ref w \<and> r < length (heap w)"
  by (auto simp: internal_def held_by_caller_def)

lemma run_internal: "internal n0 w \<Longrightarrow> internal n0 (run E derive cs w)"
  unfolding run_def by (induction cs arbitrary: w) (auto simp: exec_internal)

lemma run_held: "held_by_caller n0 w r \<Longrightarrow> held_by_caller n0 (run E derive cs w) r"
  unfolding run_def by (induction cs arbitrary: w) (auto simp: exec_held)

lemma run_keeps:
  "internal n0 w \<Longrightarrow> held_by_caller n0 w r \<Longrightarrow> heap (run E derive cs w) ! r = heap w ! r"
  unfolding run_def
proof (induction cs arbitrary: w)
  case Nil
  then show ?case by simp
next
  case (Cons c cs)
  have "heap (exec E derive c w) ! r = heap w ! r"
    using held_not_self[OF Cons.prems] by (simp add: exec_keeps)
  with Cons.IH[OF exec_internal[OF Cons.prems(1)] exec_held[OF Cons.prems(2)]]
  show ?case by simp
qed

lemma exec_commute:
  assumes "internal n0 w" "held_by_caller n0 w r"
  shows "exec E derive c (caller_assigns r d w) = caller_assigns r d (exec E derive c w)"
proof -
  from held_not_self[OF assms] have r: "r \<noteq> self_ref w" "r < length (heap w)" by simp_all
  then have same: "(heap w)[r := d] ! self_ref w = heap w ! self_ref w" by simp
  show ?thesis
    using r same
    by (auto simp: exec_def caller_assigns_def assign_def alloc_def list_update_append1
        list_update_swap split: sum.splits)
qed

lemma caller_assigns_internal: "internal n0 w \<Longrightarrow> internal n0 (caller_assigns r d w)"
  by (simp add: internal_def caller_assigns_def assign_def)

lemma caller_assigns_held:
  "held_by_caller n0 w r' \<Longrightarrow> held_by_caller n0 (caller_assigns r d w) r'"
  by (simp add: held_by_caller_def caller_assigns_def)

lemma run_commute:
  "internal n0 w \<Longrightarrow> held_by_caller n0 w r \<Longrightarrow>
   run E derive cs (caller_assigns r d w) = caller_assigns r d (run E derive cs w)"
  unfolding run_def
proof (induction cs arbitrary: w)
  case Nil
  then show ?case by simp
next
  case (Cons c cs)
  from Cons.IH[OF exec_internal[OF Cons.prems(1)] exec_held[OF Cons.prems(2)]]
  show ?case by (simp add: exec_commute[OF Cons.prems])
qed

lemma new_transformer_internal:
  "internal (length h) (new_transformer a h)"
  by (simp add: internal_def new_transformer_def alloc_def)

text \<open>
  C9. Let a chain be created on the frame at \<open>a\<close>, run some calls, and then some more. The
  chain works on a copy: its frame is another object with the same contents. No frame that
  existed before the chain, the input among them, is ever changed. \<open>get_result\<close> hands out a
  new frame with the contents of \<open>self.df\<close>; the later calls leave every frame handed out as
  it was; and an assignment by the caller into a frame handed out (or into the input) changes
  nothing for the chain, whose later calls run as they would have and leave the same frame
  in \<open>self.df\<close>.
\<close>

theorem C9_copies_are_independent:
  assumes "a < length h"
    and "w0 = new_transformer a h"
    and "w1 = run E derive before w0"
    and "w2 = run E derive after w1"
  shows "self_ref w0 \<noteq> a \<and> heap w0 ! self_ref w0 = h ! a
         \<and> (\<forall>r < length h. heap w2 ! r = h ! r)
         \<and> (raised w1 = None \<longrightarrow>
               returned (exec E derive Get_result w1) = returned w1 @ [length (heap w1)]
               \<and> heap (exec E derive Get_result w1) ! length (heap w1) = heap w1 ! self_ref w1)
         \<and> (\<forall>r \<in> set (returned w1). heap w2 ! r = heap w1 ! r)
         \<and> (\<forall>r \<in> set (returned w1) \<union> {a}. \<forall>d.
               run E derive after (caller_assigns r d w1) = caller_assigns r d w2
               \<and> heap (caller_assigns r d w2) ! self_ref w2 = heap w2 ! self_ref w2)"
proof -
  let ?n = "length h"
  have i0: "internal ?n w0" unfolding assms(2) by (rule new_transformer_internal)
  then have i1: "internal ?n w1" unfolding assms(3) by (rule run_internal)
  then have i2: "internal ?n w2" unfolding assms(4) by (rule run_internal)
  have old0: "heap w0 ! r = h ! r" if "r < ?n" for r
    using that by (simp add: assms(2) new_transformer_def alloc_def nth_append)
  have old: "heap w2 ! r = h ! r" if "r < ?n" for r
  proof -
    have h0: "held_by_caller ?n w0 r" using that by (simp add: held_by_caller_def)
    then have h1: "held_by_caller ?n w1 r" unfolding assms(3) by (rule run_held)
    have "heap w2 ! r = heap w1 ! r" unfolding assms(4) using i1 h1 by (rule run_keeps)
    also have "\<dots> = heap w0 ! r" unfolding assms(3) using i0 h0 by (rule run_keeps)
    finally show ?thesis using old0[OF that] by simp
  qed
  have copy: "self_ref w0 \<noteq> a \<and> heap w0 ! self_ref w0 = h ! a"
    using assms(1) by (simp add: assms(2) new_transformer_def alloc_def)
  have res: "returned (exec E derive Get_result w1) = returned w1 @ [length (heap w1)]
             \<and> heap (exec E derive Get_result w1) ! length (heap w1) = heap w1 ! self_ref w1"
    if "raised w1 = None"
    using that by (simp add: exec_def alloc_def)
  have ret: "heap w2 ! r = heap w1 ! r" if "r \<in> set (returned w1)" for r
    unfolding assms(4) using i1 that by (intro run_keeps) (simp_all add: held_by_caller_def)
  have com: "run E derive after (caller_assigns r d w1) = caller_assigns r d w2
             \<and> heap (caller_assigns r d w2) ! self_ref w2 = heap w2 ! self_ref w2"
    if "r \<in> set (returned w1) \<union> {a}" for r d
  proof -
    have h1: "held_by_caller ?n w1 r" using that assms(1) by (auto simp: held_by_caller_def)
    then have "held_by_caller ?n w2 r" unfolding assms(4) by (rule run_held)
    from held_not_self[OF i2 this] have "r \<noteq> self_ref w2" by simp
    then show ?thesis
      using run_commute[OF i1 h1, of E derive after d]
      by (simp add: assms(4) caller_assigns_def assign_def)
  qed
  show ?thesis using copy old res ret com by blast
qed

theorem C9_copies_are_independent_witness:
  "0 < length [brands_with_none]
   \<and> returned (run ascii_env no_derivation [Get_result] (new_transformer 0 [brands_with_none])) = [2]
   \<and> heap (run ascii_env no_derivation [Normalize_text_columns None]
             (run ascii_env no_derivation [Get_result] (new_transformer 0 [brands_with_none]))) ! 0
       = brands_with_none
   \<and> heap (run ascii_env no_derivation [Normalize_text_columns None]
             (run ascii_env no_derivation [Get_result] (new_transformer 0 [brands_with_none]))) ! 2
       = brands_with_none
   \<and> run ascii_env no_derivation [Normalize_text_columns None]
        (caller_assigns 2 gap_frame
           (run ascii_env no_derivation [Get_result] (new_transformer 0 [brands_with_none])))
       = caller_assigns 2 gap_frame
           (run ascii_env no_derivation [Normalize_text_columns None]
              (run ascii_env no_derivation [Get_result] (new_transformer 0 [brands_with_none])))"
proof -
  let ?w0 = "new_transformer 0 [brands_with_none]"
  let ?w1 = "run ascii_env no_derivation [Get_result] ?w0"
  let ?w2 = "run ascii_env no_derivation [Normalize_text_columns None] ?w1"
  have a: "0 < length [brands_with_none]" by simp
  have w1: "?w1 = \<lparr>heap = [brands_with_none, brands_with_none, brands_with_none], self_ref = 1,
                   applied = [], returned = [2], raised = None\<rparr>"
    by (simp add: run_def exec_def new_transformer_def alloc_def)
  from C9_copies_are_independent [where E = ascii_env and derive = no_derivation
      and before = "[Get_result]" and after = "[Normalize_text_columns None]", OF a refl refl refl]
  have "(\<forall>r < length [brands_with_none]. heap ?w2 ! r = [brands_with_none] ! r)
        \<and> (\<forall>r \<in> set (returned ?w1). heap ?w2 ! r = heap ?w1 ! r)
        \<and> (\<forall>r \<in> set (returned ?w1) \<union> {0}. \<forall>d.
              run ascii_env no_derivation [Normalize_text_columns None] (caller_assigns r d ?w1)
                = caller_assigns r d ?w2)"
    by blast
  then have "heap ?w2 ! 0 = brands_with_none" "\<forall>r \<in> set (returned ?w1). heap ?w2 ! r = heap ?w1 ! r"
    "\<forall>r \<in> set (returned ?w1). \<forall>d.
        run ascii_env no_derivation [Normalize_text_columns None] (caller_assigns r d ?w1)
          = caller_assigns r d ?w2"
    by simp_all
  moreover have r: "returned ?w1 = [2]" and h: "heap ?w1 ! 2 = brands_with_none"
    by (simp_all add: w1)
  ultimately show ?thesis using a by simp
qed

end
